theory Spec2Isabelle
  imports Complex_Main "HOL-Library.AList" "HOL-Library.Product_Lexorder" "HOL-Library.Char_ord"
    "HOL-Library.List_Lexorder" "HOL-Library.Sublist"
begin

section \<open>Floating-point cells\<close>

text \<open>
  A cell of a float64 column is a finite number, one of the two infinities, or NaN.
  Finite arithmetic is exact (rounding and overflow of the binary format are outside
  this model, and so is the sign of zero); the special values follow IEEE 754.
  A parsed timestamp is held as \<open>Fin t\<close> with \<open>t\<close> the seconds since the epoch, and
  NaT as \<open>NaN\<close>.
\<close>

datatype fval = Fin real | PInf | MInf | NaN

fun fneg :: "fval \<Rightarrow> fval" where
  "fneg (Fin x) = Fin (- x)"
| "fneg PInf = MInf"
| "fneg MInf = PInf"
| "fneg NaN = NaN"

fun fadd :: "fval \<Rightarrow> fval \<Rightarrow> fval" where
  "fadd NaN _ = NaN"
| "fadd _ NaN = NaN"
| "fadd (Fin x) (Fin y) = Fin (x + y)"
| "fadd (Fin _) PInf = PInf"
| "fadd (Fin _) MInf = MInf"
| "fadd PInf MInf = NaN"
| "fadd PInf _ = PInf"
| "fadd MInf PInf = NaN"
| "fadd MInf _ = MInf"

definition fsub :: "fval \<Rightarrow> fval \<Rightarrow> fval" where
  "fsub a b = fadd a (fneg b)"

text \<open>The sign of an infinite product or quotient: positive, or negative.\<close>

definition signed_inf :: "bool \<Rightarrow> fval" where
  "signed_inf pos = (if pos then PInf else MInf)"

fun fmul :: "fval \<Rightarrow> fval \<Rightarrow> fval" where
  "fmul NaN _ = NaN"
| "fmul _ NaN = NaN"
| "fmul (Fin x) (Fin y) = Fin (x * y)"
| "fmul (Fin x) PInf = (if x = 0 then NaN else signed_inf (0 < x))"
| "fmul (Fin x) MInf = (if x = 0 then NaN else signed_inf (x < 0))"
| "fmul PInf (Fin y) = (if y = 0 then NaN else signed_inf (0 < y))"
| "fmul MInf (Fin y) = (if y = 0 then NaN else signed_inf (y < 0))"
| "fmul PInf PInf = PInf"
| "fmul PInf MInf = MInf"
| "fmul MInf PInf = MInf"
| "fmul MInf MInf = PInf"

fun fdiv :: "fval \<Rightarrow> fval \<Rightarrow> fval" where
  "fdiv NaN _ = NaN"
| "fdiv _ NaN = NaN"
| "fdiv (Fin x) (Fin y) =
     (if y = 0 then (if x = 0 then NaN else signed_inf (0 < x)) else Fin (x / y))"
| "fdiv (Fin _) PInf = Fin 0"
| "fdiv (Fin _) MInf = Fin 0"
| "fdiv PInf (Fin y) = signed_inf (0 \<le> y)"
| "fdiv MInf (Fin y) = signed_inf (y < 0)"
| "fdiv PInf _ = NaN"
| "fdiv MInf _ = NaN"

definition isna :: "fval \<Rightarrow> bool" where
  "isna x = (x = NaN)"

section \<open>Series operations of the data-frame library\<close>

text \<open>
  A Series with the default positional index is a list. A Python value that is either
  a scalar or a Series is a \<open>pd_value\<close>.
\<close>

datatype pd_value = Scalar fval | Series "fval list"

text \<open>Index alignment against a positional index of length \<open>n\<close>: labels without a
  value read NaN, values without a label are dropped.\<close>

definition align :: "nat \<Rightarrow> fval list \<Rightarrow> fval list" where
  "align n xs = take n xs @ replicate (n - length xs) NaN"

text \<open>\<open>Series.diff()\<close>: the first element has no predecessor and is NaN.\<close>

fun diff_from :: "fval \<Rightarrow> fval list \<Rightarrow> fval list" where
  "diff_from p [] = []"
| "diff_from p (x # xs) = fsub x p # diff_from x xs"

fun diff :: "fval list \<Rightarrow> fval list" where
  "diff [] = []"
| "diff (x # xs) = NaN # diff_from x xs"

text \<open>\<open>Series.fillna(v)\<close> and \<open>Series.replace(olds, new)\<close>.\<close>

definition fillna :: "fval \<Rightarrow> fval list \<Rightarrow> fval list" where
  "fillna v xs = map (\<lambda>x. if isna x then v else x) xs"

definition replace :: "fval list \<Rightarrow> fval \<Rightarrow> fval list \<Rightarrow> fval list" where
  "replace olds new xs = map (\<lambda>x. if x \<in> set olds then new else x) xs"

text \<open>\<open>series * scalar\<close> and \<open>numerator / denominator\<close> (the latter aligned on the
  union of the two indices).\<close>

definition series_mul :: "fval list \<Rightarrow> fval \<Rightarrow> fval list" where
  "series_mul xs k = map (\<lambda>x. fmul x k) xs"

fun series_div :: "pd_value \<Rightarrow> fval list \<Rightarrow> fval list" where
  "series_div (Scalar a) d = map (fdiv a) d"
| "series_div (Series n) d =
     (let m = max (length n) (length d) in map2 fdiv (align m n) (align m d))"

section \<open>Helpers of \<open>data_preprocessing.py\<close>\<close>

text \<open>\<open>safe_diff\<close> (lines 14-20): the scalar 0 for \<open>None\<close>, else \<open>series.diff().fillna(0)\<close>.\<close>

fun safe_diff :: "fval list option \<Rightarrow> pd_value" where
  "safe_diff None = Scalar (Fin 0)"
| "safe_diff (Some series) = Series (fillna (Fin 0) (diff series))"

text \<open>\<open>safe_div\<close> (lines 22-27): zero denominators become NaN, then the quotient has its
  infinities replaced by 0 and its NaNs filled with 0.\<close>

definition safe_div :: "pd_value \<Rightarrow> fval list \<Rightarrow> fval list" where
  "safe_div numerator denominator =
     (let denominator' = replace [Fin 0] NaN denominator
      in fillna (Fin 0) (replace [PInf, MInf] (Fin 0) (series_div numerator denominator')))"

definition is_finite :: "fval \<Rightarrow> bool" where
  "is_finite x = (x \<noteq> NaN \<and> x \<noteq> PInf \<and> x \<noteq> MInf)"

section \<open>Gap filling of the data-frame library\<close>

text \<open>
  \<open>Series.interpolate(method="linear")\<close> treats the rows as equally spaced: a missing
  value between two valid ones lies on the straight line through them, by row position.
  With the default direction (forward) a gap after the last valid value takes that value,
  and a gap before the first valid value stays missing.
\<close>

definition prev_valid :: "fval list \<Rightarrow> nat \<Rightarrow> nat option" where
  "prev_valid xs k = find (\<lambda>i. \<not> isna (xs ! i)) (rev [0..<k])"

definition next_valid :: "fval list \<Rightarrow> nat \<Rightarrow> nat option" where
  "next_valid xs k = find (\<lambda>j. \<not> isna (xs ! j)) [Suc k..<length xs]"

text \<open>The line through \<open>(i, a)\<close> and \<open>(j, b)\<close>, at \<open>k\<close>: slope times distance, plus \<open>a\<close>.\<close>

definition lerp :: "nat \<Rightarrow> fval \<Rightarrow> nat \<Rightarrow> fval \<Rightarrow> nat \<Rightarrow> fval" where
  "lerp i a j b k =
     fadd (fmul (fdiv (fsub b a) (Fin (real j - real i))) (Fin (real k - real i))) a"

definition interp_at :: "fval list \<Rightarrow> nat \<Rightarrow> fval" where
  "interp_at xs k =
     (case prev_valid xs k of
        None \<Rightarrow> NaN
      | Some i \<Rightarrow>
          (case next_valid xs k of
             None \<Rightarrow> xs ! i
           | Some j \<Rightarrow> lerp i (xs ! i) j (xs ! j) k))"

definition interpolate_linear :: "fval list \<Rightarrow> fval list" where
  "interpolate_linear xs =
     map (\<lambda>k. if isna (xs ! k) then interp_at xs k else xs ! k) [0..<length xs]"

text \<open>\<open>fillna(method="ffill")\<close> carries the last valid value forward; \<open>fillna(method="bfill")\<close>
  carries the next valid value backward.\<close>

fun ffill_from :: "fval \<Rightarrow> fval list \<Rightarrow> fval list" where
  "ffill_from p [] = []"
| "ffill_from p (x # xs) = (if isna x then p # ffill_from p xs else x # ffill_from x xs)"

definition ffill :: "fval list \<Rightarrow> fval list" where
  "ffill xs = ffill_from NaN xs"

fun bfill :: "fval list \<Rightarrow> fval list" where
  "bfill [] = []"
| "bfill (x # xs) =
     (if isna x then (case bfill xs of [] \<Rightarrow> NaN | y # _ \<Rightarrow> y) else x) # bfill xs"

section \<open>Data frames\<close>

text \<open>
  A row maps column names to cells, in column order: the float64 and datetime columns in
  \<open>nums\<close>, every other column (identifiers, flags) as text in \<open>strs\<close>. No arithmetic is
  done on a text column. A frame keeps its column names beside its rows, so that a frame
  without rows still has columns. The row index is positional (\<open>reset_index(drop=True)\<close>
  changes nothing here).
\<close>

record row =
  nums :: "(string \<times> fval) list"
  strs :: "(string \<times> string) list"

record frame =
  columns :: "string list"
  rows :: "row list"

definition num_cell :: "row \<Rightarrow> string \<Rightarrow> fval" where
  "num_cell r c = (case map_of (nums r) c of Some v \<Rightarrow> v | None \<Rightarrow> NaN)"

definition txt_cell :: "row \<Rightarrow> string \<Rightarrow> string" where
  "txt_cell r c = (case map_of (strs r) c of Some s \<Rightarrow> s | None \<Rightarrow> [])"

text \<open>\<open>df[c]\<close>, read as a Series.\<close>

definition get_col :: "frame \<Rightarrow> string \<Rightarrow> fval list" where
  "get_col df c = map (\<lambda>r. num_cell r c) (rows df)"

definition set_num :: "string \<Rightarrow> fval \<Rightarrow> row \<Rightarrow> row" where
  "set_num c x r = r\<lparr>nums := AList.update c x (nums r), strs := AList.delete c (strs r)\<rparr>"

definition set_txt :: "string \<Rightarrow> string \<Rightarrow> row \<Rightarrow> row" where
  "set_txt c s r = r\<lparr>strs := AList.update c s (strs r), nums := AList.delete c (nums r)\<rparr>"

definition with_column :: "string list \<Rightarrow> string \<Rightarrow> string list" where
  "with_column cs c = (if c \<in> set cs then cs else cs @ [c])"

text \<open>\<open>df[c] = value\<close>: a scalar is broadcast to every row, a Series is aligned on the
  row index; a new column goes last.\<close>

fun assign :: "frame \<Rightarrow> string \<Rightarrow> pd_value \<Rightarrow> frame" where
  "assign df c (Scalar x) =
     \<lparr>columns = with_column (columns df) c, rows = map (set_num c x) (rows df)\<rparr>"
| "assign df c (Series xs) =
     \<lparr>columns = with_column (columns df) c,
      rows = map2 (\<lambda>r x. set_num c x r) (rows df) (align (length (rows df)) xs)\<rparr>"

definition assign_txt :: "frame \<Rightarrow> string \<Rightarrow> string \<Rightarrow> frame" where
  "assign_txt df c s =
     \<lparr>columns = with_column (columns df) c, rows = map (set_txt c s) (rows df)\<rparr>"

text \<open>\<open>df.dropna(subset=cols)\<close> keeps the rows without a missing value in \<open>cols\<close>.\<close>

definition dropna :: "string list \<Rightarrow> frame \<Rightarrow> frame" where
  "dropna cols df = df\<lparr>rows := filter (\<lambda>r. \<forall>c \<in> set cols. \<not> isna (num_cell r c)) (rows df)\<rparr>"

text \<open>\<open>df.empty\<close>: some axis has length 0.\<close>

definition empty_frame :: "frame \<Rightarrow> bool" where
  "empty_frame df = (rows df = [] \<or> columns df = [])"

text \<open>\<open>df.sort_values(c)\<close>, ascending with missing values last. Rows with equal keys keep
  their order.\<close>

fun fkey :: "fval \<Rightarrow> nat \<times> real" where
  "fkey MInf = (0, 0)"
| "fkey (Fin x) = (1, x)"
| "fkey PInf = (2, 0)"
| "fkey NaN = (3, 0)"

definition sort_values :: "string \<Rightarrow> frame \<Rightarrow> frame" where
  "sort_values c df = df\<lparr>rows := sort_key (\<lambda>r. fkey (num_cell r c)) (rows df)\<rparr>"

text \<open>\<open>df.drop_duplicates()\<close> keeps the first of the rows that agree on every column
  (two missing values agree).\<close>

fun dedup :: "'a list \<Rightarrow> 'a list \<Rightarrow> 'a list" where
  "dedup seen [] = []"
| "dedup seen (x # xs) = (if x \<in> set seen then dedup seen xs else x # dedup (x # seen) xs)"

definition drop_duplicates :: "frame \<Rightarrow> frame" where
  "drop_duplicates df = df\<lparr>rows := dedup [] (rows df)\<rparr>"

text \<open>\<open>pd.to_datetime(x, unit="s", errors="coerce")\<close> on one cell: a finite number of seconds
  that fits the 64-bit nanosecond range is a timestamp, everything else is NaT.\<close>

definition to_datetime :: "fval \<Rightarrow> fval" where
  "to_datetime x =
     (case x of Fin t \<Rightarrow> (if \<bar>t\<bar> * 10 ^ 9 \<le> 2 ^ 63 - 1 then Fin t else NaN) | _ \<Rightarrow> NaN)"

text \<open>\<open>.dt.total_seconds()\<close>: differences of timestamps are already held in seconds.\<close>

definition total_seconds :: "fval list \<Rightarrow> fval list" where
  "total_seconds tds = tds"

section \<open>\<open>preprocess_file\<close>\<close>

text \<open>
  A raw file is its name, its size in bytes and what \<open>pd.read_csv\<close> makes of it: a frame,
  or the exception it raises. The function returns a frame, returns \<open>None\<close> after printing
  why the file is skipped, or raises.
\<close>

datatype py_error = IndexError | EmptyDataError | ParserError

datatype skip_reason = EmptyFile | MissingColumns "string list" | NoUsableRows

datatype result = Raised py_error | Skipped skip_reason | Returned frame

record raw_file =
  name :: string
  fsize :: nat
  read_csv :: "py_error + frame"

definition essential_cols :: "string list" where
  "essential_cols = [''time'', ''latitude'', ''longitude'', ''baro_altitude'']"

definition numeric_cols :: "string list" where
  "numeric_cols = [''latitude'', ''longitude'', ''baro_altitude'', ''velocity'']"

definition DEG_TO_M :: fval where
  "DEG_TO_M = Fin 111000"

text \<open>A statement \<open>df[c] = f(df)\<close> is a step; straight-line code is a list of steps.\<close>

type_synonym step = "string \<times> (frame \<Rightarrow> pd_value)"

definition run_step :: "step \<Rightarrow> frame \<Rightarrow> frame" where
  "run_step s df = assign df (fst s) (snd s df)"

definition run_steps :: "step list \<Rightarrow> frame \<Rightarrow> frame" where
  "run_steps steps df = fold run_step steps df"

text \<open>Lines 66-69: parse the timestamps, drop the rows whose timestamp did not parse,
  sort by time, drop duplicate rows.\<close>

definition basic_cleaning :: "frame \<Rightarrow> frame" where
  "basic_cleaning df =
     drop_duplicates (sort_values ''time'' (dropna [''time'']
       (run_step (''time'', \<lambda>d. Series (map to_datetime (get_col d ''time''))) df)))"

text \<open>Lines 74-86: the loop over the numeric columns.\<close>

definition fill_gaps :: "fval list \<Rightarrow> fval list" where
  "fill_gaps xs = ffill (bfill (interpolate_linear xs))"

definition interpolation_step :: "string \<Rightarrow> step" where
  "interpolation_step col =
     (col, \<lambda>df. if col \<in> set (columns df) then Series (fill_gaps (get_col df col))
                else Scalar (Fin 0))"

definition interpolate_numeric :: "frame \<Rightarrow> frame" where
  "interpolate_numeric df = run_steps (map interpolation_step numeric_cols) df"

text \<open>Lines 93-118: the derived columns, in the order of the source.\<close>

definition feature_steps :: "step list" where
  "feature_steps =
    [(''delta_time'', \<lambda>df. Series (fillna (Fin 1) (total_seconds (diff (get_col df ''time''))))),
     (''delta_time'', \<lambda>df. Series (replace [Fin 0] (Fin 1) (get_col df ''delta_time''))),
     (''delta_lat'', \<lambda>df. safe_diff (Some (get_col df ''latitude''))),
     (''delta_lon'', \<lambda>df. safe_diff (Some (get_col df ''longitude''))),
     (''delta_altitude'', \<lambda>df. safe_diff (Some (get_col df ''baro_altitude''))),
     (''delta_velocity'', \<lambda>df. safe_diff (Some (get_col df ''velocity''))),
     (''vx'', \<lambda>df. Series (safe_div (Series (series_mul (get_col df ''delta_lon'') DEG_TO_M))
                               (get_col df ''delta_time''))),
     (''vy'', \<lambda>df. Series (safe_div (Series (series_mul (get_col df ''delta_lat'') DEG_TO_M))
                               (get_col df ''delta_time''))),
     (''v_vertical'', \<lambda>df. Series (safe_div (Series (get_col df ''delta_altitude''))
                               (get_col df ''delta_time''))),
     (''ax'', \<lambda>df. Series (safe_div (safe_diff (Some (get_col df ''vx'')))
                               (get_col df ''delta_time''))),
     (''ay'', \<lambda>df. Series (safe_div (safe_diff (Some (get_col df ''vy'')))
                               (get_col df ''delta_time''))),
     (''a_vertical'', \<lambda>df. Series (safe_div (safe_diff (Some (get_col df ''v_vertical'')))
                               (get_col df ''delta_time''))),
     (''delta_heading'', \<lambda>df. if ''heading'' \<in> set (columns df)
                               then safe_diff (Some (get_col df ''heading''))
                               else Scalar (Fin 0))]"

definition feature_engineering :: "frame \<Rightarrow> frame" where
  "feature_engineering df = run_steps feature_steps df"

text \<open>Line 121: \<open>df["icao24"].iloc[0]\<close> raises IndexError on a frame without rows.\<close>

definition icao24_handling :: "frame \<Rightarrow> result" where
  "icao24_handling df =
     (if ''icao24'' \<in> set (columns df)
      then (case rows df of
              [] \<Rightarrow> Raised IndexError
            | r # _ \<Rightarrow> Returned (assign_txt df ''icao24'' (txt_cell r ''icao24'')))
      else Returned (assign_txt df ''icao24'' ''unknown''))"

text \<open>Lines 53-55: a missing \<open>velocity\<close> column is created, filled with 0.\<close>

definition velocity_placeholder :: "frame \<Rightarrow> frame" where
  "velocity_placeholder df =
     (if ''velocity'' \<notin> set (columns df) then assign df ''velocity'' (Scalar (Fin 0)) else df)"

definition preprocess_file :: "raw_file \<Rightarrow> result" where
  "preprocess_file f =
     (if fsize f < 10 then Skipped EmptyFile
      else case read_csv f of
        Inl e \<Rightarrow> Raised e
      | Inr df \<Rightarrow>
          (let missing = filter (\<lambda>c. c \<notin> set (columns df)) essential_cols in
           if missing \<noteq> [] then Skipped (MissingColumns missing)
           else
             let df = velocity_placeholder df;
                 df = dropna essential_cols df
             in if empty_frame df then Skipped NoUsableRows
                else icao24_handling
                       (feature_engineering (interpolate_numeric (basic_cleaning df)))))"

section \<open>\<open>preprocess_all\<close>\<close>

text \<open>
  The batch takes the files that \<open>glob\<close> found, in that order, and writes every returned
  frame to the one path \<open>OUTPUT_CSV\<close>. The state is the content of that path and the lines
  that the loop itself prints for a file, line 138 or line 142 (the latter without the
  path that follows it); an exception leaves the loop with the state reached so far.
\<close>

record batch_state =
  output_csv :: "frame option"
  printed :: "string list"

fun preprocess_all :: "raw_file list \<Rightarrow> batch_state \<Rightarrow> (py_error \<times> batch_state) + batch_state" where
  "preprocess_all [] st = Inr st"
| "preprocess_all (f # files) st =
     (case preprocess_file f of
        Raised e \<Rightarrow> Inl (e, st)
      | Skipped _ \<Rightarrow>
          preprocess_all files (st\<lparr>printed := printed st @ [''[INFO] Skipped '' @ name f]\<rparr>)
      | Returned df \<Rightarrow>
          preprocess_all files
            (st\<lparr>output_csv := Some df,
                printed := printed st @ [''[INFO] Processed and saved'']\<rparr>))"

section \<open>\<open>merge_processed_files\<close>\<close>

text \<open>
  The directory listing is the list of CSV paths with the frame each one parses to. The
  state is the two output artifacts and, of the printed lines, the error of line 19 and
  the confirmation of line 44 (without the path that follows it); \<open>parquet_ok\<close> says
  whether the optional Parquet write succeeds. Timestamps are ordered as instants.
\<close>

record merge_state =
  merged_csv :: "frame option"
  merged_parquet :: "frame option"
  merge_printed :: "string list"

definition digit_char :: "nat \<Rightarrow> char" where
  "digit_char d = char_of (48 + d)"

fun digits :: "nat \<Rightarrow> string" where
  "digits n = (if n < 10 then [digit_char n] else digits (n div 10) @ [digit_char (n mod 10)])"

text \<open>\<open>f"flight_{idx+1:03d}"\<close>.\<close>

definition flight_id :: "nat \<Rightarrow> string" where
  "flight_id idx =
     (let ds = digits (idx + 1) in ''flight_'' @ replicate (3 - length ds) CHR ''0'' @ ds)"

definition concat_frames :: "frame list \<Rightarrow> frame" where
  "concat_frames dfs =
     \<lparr>columns = fold (\<lambda>c cs. with_column cs c) (concat (map columns dfs)) [],
      rows = concat (map rows dfs)\<rparr>"

definition merge_processed_files ::
  "bool \<Rightarrow> (string \<times> frame) list \<Rightarrow> merge_state \<Rightarrow> frame option \<times> merge_state" where
  "merge_processed_files parquet_ok listing st =
     (let files = filter (\<lambda>(f, _). \<not> sublist ''merged_dataset'' f) listing in
      if length files = 0
      then (None, st\<lparr>merge_printed := merge_printed st @ [''[ERROR] No processed CSV files found.'']\<rparr>)
      else
        let all_dfs = map (\<lambda>(idx, (_, df)). assign_txt df ''flight_id'' (flight_id idx))
                          (enumerate 0 files);
            merged = concat_frames all_dfs;
            merged_df = merged\<lparr>rows := sort_key (\<lambda>r. (txt_cell r ''flight_id'', fkey (num_cell r ''time'')))
                                          (rows merged)\<rparr>
        in (Some merged_df,
            st\<lparr>merged_csv := Some merged_df,
               merged_parquet := (if parquet_ok then Some merged_df else merged_parquet st),
               merge_printed := merge_printed st @ [''[INFO] Merged dataset saved'']\<rparr>))"

section \<open>Vocabulary of the properties\<close>

text \<open>The values a right-hand side contributes to a frame of \<open>n\<close> rows.\<close>

fun broadcast :: "nat \<Rightarrow> pd_value \<Rightarrow> fval list" where
  "broadcast n (Scalar x) = replicate n x"
| "broadcast n (Series xs) = align n xs"

text \<open>The derived columns that are built on a first difference.\<close>

definition first_difference_cols :: "string list" where
  "first_difference_cols =
     [''delta_lat'', ''delta_lon'', ''delta_altitude'', ''delta_velocity'', ''vx'', ''vy'',
      ''v_vertical'', ''ax'', ''ay'', ''a_vertical'', ''delta_heading'']"

text \<open>A row stores a column as a number (as text): the name is a key of \<open>nums\<close> (of
  \<open>strs\<close>) only. A frame stores a numeric column when it lists the name and every row
  stores it as a number.\<close>

definition stores_num :: "row \<Rightarrow> string \<Rightarrow> bool" where
  "stores_num r c \<longleftrightarrow> c \<in> fst ` set (nums r) \<and> c \<notin> fst ` set (strs r)"

definition stores_txt :: "row \<Rightarrow> string \<Rightarrow> bool" where
  "stores_txt r c \<longleftrightarrow> c \<in> fst ` set (strs r) \<and> c \<notin> fst ` set (nums r)"

definition frame_stores :: "frame \<Rightarrow> string \<Rightarrow> bool" where
  "frame_stores df c \<longleftrightarrow> c \<in> set (columns df) \<and> list_all (\<lambda>r. stores_num r c) (rows df)"

text \<open>A column of the frame a call returned, if it returned one.\<close>

fun result_col :: "result \<Rightarrow> string \<Rightarrow> fval list option" where
  "result_col (Returned df) c = Some (get_col df c)"
| "result_col _ c = None"

text \<open>Concrete inputs: a sample with the five usual columns, a track of such samples, the
  same track with the \<open>icao24\<close> column the loader adds, and a CSV file of 100 bytes that
  parses to a given frame.\<close>

definition sample :: "real \<Rightarrow> real \<Rightarrow> real \<Rightarrow> real \<Rightarrow> fval \<Rightarrow> row" where
  "sample t lat lon alt v =
     \<lparr>nums = [(''time'', Fin t), (''latitude'', Fin lat), (''longitude'', Fin lon),
              (''baro_altitude'', Fin alt), (''velocity'', v)],
      strs = []\<rparr>"

definition track :: "row list \<Rightarrow> frame" where
  "track rs =
     \<lparr>columns = [''time'', ''latitude'', ''longitude'', ''baro_altitude'', ''velocity''],
      rows = rs\<rparr>"

definition track_of :: "string \<Rightarrow> row list \<Rightarrow> frame" where
  "track_of icao rs = assign_txt (track rs) ''icao24'' icao"

definition csv_file :: "string \<Rightarrow> frame \<Rightarrow> raw_file" where
  "csv_file n df = \<lparr>name = n, fsize = 100, read_csv = Inr df\<rparr>"

section \<open>Properties of the helpers\<close>

lemma align_same [simp]: "length xs = n \<Longrightarrow> align n xs = xs"
  by (simp add: align_def)

lemma length_align [simp]: "length (align n xs) = n"
  by (simp add: align_def)

lemma length_diff_from [simp]: "length (diff_from p xs) = length xs"
  by (induction xs arbitrary: p) simp_all

lemma length_diff [simp]: "length (diff xs) = length xs"
  by (cases xs) simp_all

lemma length_fillna [simp]: "length (fillna v xs) = length xs"
  by (simp add: fillna_def)

lemma length_replace [simp]: "length (replace olds new xs) = length xs"
  by (simp add: replace_def)

lemma length_series_mul [simp]: "length (series_mul xs k) = length xs"
  by (simp add: series_mul_def)

lemma series_div_same_length:
  "length n = length d \<Longrightarrow> series_div (Series n) d = map2 fdiv n d"
  by simp

lemma length_safe_div_series [simp]:
  "length (safe_div (Series n) d) = max (length n) (length d)"
  by (simp add: safe_div_def Let_def)

lemma fdiv_NaN_right [simp]: "fdiv a NaN = NaN"
  by (cases a) simp_all

lemma safe_cell_finite:
  "is_finite ((\<lambda>x. if isna x then Fin 0 else x) ((\<lambda>x. if x \<in> set [PInf, MInf] then Fin 0 else x) q))"
  by (cases q) (simp_all add: is_finite_def isna_def)

lemma safe_div_nth:
  assumes "length n = length d" and "i < length d"
  shows "safe_div (Series n) d ! i =
     (\<lambda>x. if isna x then Fin 0 else x)
       ((\<lambda>x. if x \<in> set [PInf, MInf] then Fin 0 else x)
          (fdiv (n ! i) (if d ! i = Fin 0 then NaN else d ! i)))"
  using assms by (simp add: safe_div_def fillna_def replace_def)

text \<open>
  C1. \<open>safe_div\<close> is total and elementwise: on two series of equal length the result has
  that length, it is 0 wherever the denominator is exactly 0 (whatever the numerator,
  0 included), and no position of the result is NaN or an infinity.
\<close>

theorem safe_div_total:
  assumes "length n = length d"
  shows "length (safe_div (Series n) d) = length d
       \<and> (\<forall>i < length d. d ! i = Fin 0 \<longrightarrow> safe_div (Series n) d ! i = Fin 0)
       \<and> (\<forall>i < length d. is_finite (safe_div (Series n) d ! i))"
proof (intro conjI allI impI)
  show "length (safe_div (Series n) d) = length d"
    using assms by simp
next
  fix i assume "i < length d" and "d ! i = Fin 0"
  then show "safe_div (Series n) d ! i = Fin 0"
    using assms by (simp add: safe_div_nth isna_def)
next
  fix i assume "i < length d"
  then show "is_finite (safe_div (Series n) d ! i)"
    using assms safe_cell_finite by (simp only: safe_div_nth)
qed

theorem safe_div_total_witness:
  "length [Fin 0, Fin 3, PInf, NaN, Fin 6] = length [Fin 0, Fin 0, Fin 2, Fin 1, Fin 4]
   \<and> safe_div (Series [Fin 0, Fin 3, PInf, NaN, Fin 6]) [Fin 0, Fin 0, Fin 2, Fin 1, Fin 4]
     = [Fin 0, Fin 0, Fin 0, Fin 0, Fin (3/2)]
   \<and> list_all is_finite
        (safe_div (Series [Fin 0, Fin 3, PInf, NaN, Fin 6]) [Fin 0, Fin 0, Fin 2, Fin 1, Fin 4])"
  using safe_div_total [of "[Fin 0, Fin 3, PInf, NaN, Fin 6]" "[Fin 0, Fin 0, Fin 2, Fin 1, Fin 4]"]
  by (simp add: safe_div_def fillna_def replace_def isna_def signed_inf_def is_finite_def)

section \<open>Frames: reading after writing\<close>

lemma num_cell_set_num [simp]:
  "num_cell (set_num c x r) c' = (if c' = c then x else num_cell r c')"
  by (simp add: num_cell_def set_num_def update_conv')

lemma num_cell_set_txt [simp]:
  "c' \<noteq> c \<Longrightarrow> num_cell (set_txt c s r) c' = num_cell r c'"
  by (simp add: num_cell_def set_txt_def delete_conv')

lemma txt_cell_set_txt [simp]:
  "txt_cell (set_txt c s r) c' = (if c' = c then s else txt_cell r c')"
  by (simp add: txt_cell_def set_txt_def update_conv')

lemma length_rows_assign [simp]: "length (rows (assign df c v)) = length (rows df)"
  by (cases v) simp_all

lemma columns_assign [simp]: "columns (assign df c v) = with_column (columns df) c"
  by (cases v) simp_all

lemma map_num_cell_zip:
  "length rs = length ys \<Longrightarrow>
   map (\<lambda>r. num_cell r c') (map2 (\<lambda>r x. set_num c x r) rs ys)
     = (if c' = c then ys else map (\<lambda>r. num_cell r c') rs)"
  by (induction rs ys rule: list_induct2) auto

lemma get_col_assign:
  "get_col (assign df c v) c' =
     (if c' = c then broadcast (length (rows df)) v else get_col df c')"
proof (cases v)
  case (Scalar x)
  then show ?thesis by (simp add: get_col_def o_def map_replicate_const)
next
  case (Series xs)
  then show ?thesis
    using map_num_cell_zip [of "rows df" "align (length (rows df)) xs" c' c]
    by (simp add: get_col_def del: map_map)
qed

declare assign.simps [simp del]

lemma length_get_col [simp]: "length (get_col df c) = length (rows df)"
  by (simp add: get_col_def)

lemma length_rows_run_step [simp]: "length (rows (run_step s df)) = length (rows df)"
  by (simp add: run_step_def)

lemma columns_run_step [simp]: "columns (run_step s df) = with_column (columns df) (fst s)"
  by (simp add: run_step_def)

lemma get_col_run_step:
  "get_col (run_step s df) c' =
     (if c' = fst s then broadcast (length (rows df)) (snd s df) else get_col df c')"
  by (simp add: run_step_def get_col_assign)

lemma length_rows_run_steps [simp]: "length (rows (run_steps ss df)) = length (rows df)"
  unfolding run_steps_def by (induction ss arbitrary: df) simp_all

lemma run_steps_Nil [simp]: "run_steps [] df = df"
  by (simp add: run_steps_def)

lemma run_steps_Cons [simp]: "run_steps (s # ss) df = run_steps ss (run_step s df)"
  by (simp add: run_steps_def)

lemma run_steps_snoc: "run_steps (ss @ [s]) df = run_step s (run_steps ss df)"
  by (simp add: run_steps_def)

lemma length_broadcast [simp]: "length (broadcast n v) = n"
  by (cases v) simp_all

lemma set_with_column [simp]: "set (with_column cs c) = insert c (set cs)"
  by (auto simp: with_column_def)

lemma length_rows_feature_engineering [simp]:
  "length (rows (feature_engineering df)) = length (rows df)"
  by (simp add: feature_engineering_def)

lemma diff_nth0: "xs \<noteq> [] \<Longrightarrow> diff xs ! 0 = NaN"
  by (cases xs) simp_all

lemma safe_diff_first: "xs \<noteq> [] \<Longrightarrow> fillna (Fin 0) (diff xs) ! 0 = Fin 0"
  by (cases xs) (simp_all add: fillna_def isna_def)

lemma delta_time_first:
  "xs \<noteq> [] \<Longrightarrow> replace [Fin 0] (Fin 1) (fillna (Fin 1) (total_seconds (diff xs))) ! 0 = Fin 1"
  by (cases xs) (simp_all add: fillna_def isna_def replace_def total_seconds_def)

lemma safe_div_first:
  assumes "length n = length d" "d \<noteq> []" "n ! 0 = Fin 0" "d ! 0 = Fin 1"
  shows "safe_div (Series n) d ! 0 = Fin 0"
  using assms by (simp add: safe_div_nth isna_def)

lemma series_mul_first: "xs \<noteq> [] \<Longrightarrow> xs ! 0 = Fin 0 \<Longrightarrow> series_mul xs DEG_TO_M ! 0 = Fin 0"
  by (cases xs) (simp_all add: series_mul_def DEG_TO_M_def)

lemmas feature_cols = feature_engineering_def feature_steps_def get_col_run_step

lemma fe_delta_time:
  "get_col (feature_engineering df) ''delta_time'' =
     replace [Fin 0] (Fin 1) (fillna (Fin 1) (total_seconds (diff (get_col df ''time''))))"
  by (simp add: feature_cols total_seconds_def)

lemma fe_delta_lat:
  "get_col (feature_engineering df) ''delta_lat'' = fillna (Fin 0) (diff (get_col df ''latitude''))"
  by (simp add: feature_cols)

lemma fe_delta_lon:
  "get_col (feature_engineering df) ''delta_lon'' = fillna (Fin 0) (diff (get_col df ''longitude''))"
  by (simp add: feature_cols)

lemma fe_delta_altitude:
  "get_col (feature_engineering df) ''delta_altitude'' = fillna (Fin 0) (diff (get_col df ''baro_altitude''))"
  by (simp add: feature_cols)

lemma fe_delta_velocity:
  "get_col (feature_engineering df) ''delta_velocity'' = fillna (Fin 0) (diff (get_col df ''velocity''))"
  by (simp add: feature_cols)

lemma fe_vx:
  "get_col (feature_engineering df) ''vx'' =
     safe_div (Series (series_mul (get_col (feature_engineering df) ''delta_lon'') DEG_TO_M))
       (get_col (feature_engineering df) ''delta_time'')"
  by (simp add: feature_cols)

lemma fe_vy:
  "get_col (feature_engineering df) ''vy'' =
     safe_div (Series (series_mul (get_col (feature_engineering df) ''delta_lat'') DEG_TO_M))
       (get_col (feature_engineering df) ''delta_time'')"
  by (simp add: feature_cols)

lemma fe_v_vertical:
  "get_col (feature_engineering df) ''v_vertical'' =
     safe_div (Series (get_col (feature_engineering df) ''delta_altitude''))
       (get_col (feature_engineering df) ''delta_time'')"
  by (simp add: feature_cols)

lemma fe_ax:
  "get_col (feature_engineering df) ''ax'' =
     safe_div (safe_diff (Some (get_col (feature_engineering df) ''vx'')))
       (get_col (feature_engineering df) ''delta_time'')"
  by (simp add: feature_cols)

lemma fe_ay:
  "get_col (feature_engineering df) ''ay'' =
     safe_div (safe_diff (Some (get_col (feature_engineering df) ''vy'')))
       (get_col (feature_engineering df) ''delta_time'')"
  by (simp add: feature_cols)

lemma fe_a_vertical:
  "get_col (feature_engineering df) ''a_vertical'' =
     safe_div (safe_diff (Some (get_col (feature_engineering df) ''v_vertical'')))
       (get_col (feature_engineering df) ''delta_time'')"
  by (simp add: feature_cols)

lemma fe_delta_heading:
  "get_col (feature_engineering df) ''delta_heading'' =
     (if ''heading'' \<in> set (columns df) then fillna (Fin 0) (diff (get_col df ''heading''))
      else replicate (length (rows df)) (Fin 0))"
  by (simp add: feature_cols)

lemma fe_first_row:
  assumes "rows df \<noteq> []"
  shows "get_col (feature_engineering df) ''delta_time'' ! 0 = Fin 1"
    and "get_col (feature_engineering df) ''delta_lat'' ! 0 = Fin 0"
    and "get_col (feature_engineering df) ''delta_lon'' ! 0 = Fin 0"
    and "get_col (feature_engineering df) ''delta_altitude'' ! 0 = Fin 0"
    and "get_col (feature_engineering df) ''delta_velocity'' ! 0 = Fin 0"
    and "get_col (feature_engineering df) ''vx'' ! 0 = Fin 0"
    and "get_col (feature_engineering df) ''vy'' ! 0 = Fin 0"
    and "get_col (feature_engineering df) ''v_vertical'' ! 0 = Fin 0"
    and "get_col (feature_engineering df) ''ax'' ! 0 = Fin 0"
    and "get_col (feature_engineering df) ''ay'' ! 0 = Fin 0"
    and "get_col (feature_engineering df) ''a_vertical'' ! 0 = Fin 0"
    and "get_col (feature_engineering df) ''delta_heading'' ! 0 = Fin 0"
proof -
  have ne: "get_col df c \<noteq> []" for c using assms by (simp add: get_col_def)
  have ne': "get_col (feature_engineering df) c \<noteq> []" for c
    using assms by (metis length_0_conv length_get_col length_rows_feature_engineering)
  show dt: "get_col (feature_engineering df) ''delta_time'' ! 0 = Fin 1"
    by (simp add: fe_delta_time delta_time_first ne)
  show dlat: "get_col (feature_engineering df) ''delta_lat'' ! 0 = Fin 0"
    by (simp add: fe_delta_lat safe_diff_first ne)
  show dlon: "get_col (feature_engineering df) ''delta_lon'' ! 0 = Fin 0"
    by (simp add: fe_delta_lon safe_diff_first ne)
  show dalt: "get_col (feature_engineering df) ''delta_altitude'' ! 0 = Fin 0"
    by (simp add: fe_delta_altitude safe_diff_first ne)
  show "get_col (feature_engineering df) ''delta_velocity'' ! 0 = Fin 0"
    by (simp add: fe_delta_velocity safe_diff_first ne)
  show "get_col (feature_engineering df) ''vx'' ! 0 = Fin 0"
    by (subst fe_vx, rule safe_div_first) (simp_all add: ne' dt dlon series_mul_first)
  show "get_col (feature_engineering df) ''vy'' ! 0 = Fin 0"
    by (subst fe_vy, rule safe_div_first) (simp_all add: ne' dt dlat series_mul_first)
  show "get_col (feature_engineering df) ''v_vertical'' ! 0 = Fin 0"
    by (subst fe_v_vertical, rule safe_div_first) (simp_all add: ne' dt dalt)
  show "get_col (feature_engineering df) ''ax'' ! 0 = Fin 0"
    by (subst fe_ax, simp, rule safe_div_first) (simp_all add: ne' dt safe_diff_first)
  show "get_col (feature_engineering df) ''ay'' ! 0 = Fin 0"
    by (subst fe_ay, simp, rule safe_div_first) (simp_all add: ne' dt safe_diff_first)
  show "get_col (feature_engineering df) ''a_vertical'' ! 0 = Fin 0"
    by (subst fe_a_vertical, simp, rule safe_div_first) (simp_all add: ne' dt safe_diff_first)
  show "get_col (feature_engineering df) ''delta_heading'' ! 0 = Fin 0"
    using assms by (simp add: fe_delta_heading safe_diff_first ne)
qed

section \<open>Derived columns\<close>

text \<open>
  C5. In the frame that the feature step derives from a cleaned trajectory, the velocity
  and acceleration columns are the stated compositions of \<open>safe_div\<close> and \<open>safe_diff\<close>,
  the frame has as many rows as the cleaned trajectory (so every column has that
  length), and every column built on a first difference is 0 in the first row.
\<close>

theorem derived_columns:
  assumes "e = feature_engineering df"
  shows "get_col e ''vx'' =
           safe_div (Series (series_mul (get_col e ''delta_lon'') DEG_TO_M)) (get_col e ''delta_time'')
       \<and> get_col e ''vy'' =
           safe_div (Series (series_mul (get_col e ''delta_lat'') DEG_TO_M)) (get_col e ''delta_time'')
       \<and> get_col e ''v_vertical'' =
           safe_div (Series (get_col e ''delta_altitude'')) (get_col e ''delta_time'')
       \<and> get_col e ''ax'' = safe_div (safe_diff (Some (get_col e ''vx''))) (get_col e ''delta_time'')
       \<and> get_col e ''ay'' = safe_div (safe_diff (Some (get_col e ''vy''))) (get_col e ''delta_time'')
       \<and> get_col e ''a_vertical'' =
           safe_div (safe_diff (Some (get_col e ''v_vertical''))) (get_col e ''delta_time'')
       \<and> length (rows e) = length (rows df)
       \<and> (\<forall>c. length (get_col e c) = length (rows df))
       \<and> (rows df \<noteq> [] \<longrightarrow> (\<forall>c \<in> set first_difference_cols. get_col e c ! 0 = Fin 0))"
proof -
  have first: "\<forall>c \<in> set first_difference_cols. get_col e c ! 0 = Fin 0" if "rows df \<noteq> []"
    unfolding first_difference_cols_def assms using fe_first_row [OF that] by simp
  show ?thesis
    unfolding assms
    using fe_vx [of df] fe_vy [of df] fe_v_vertical [of df] fe_ax [of df] fe_ay [of df]
      fe_a_vertical [of df] first
    by (simp add: assms)
qed

theorem derived_columns_witness:
  "rows (track [sample 0 1 1 1 (Fin 5), sample 10 2 3 4 (Fin 7)]) \<noteq> []
   \<and> list_all (\<lambda>c. get_col (feature_engineering
          (track [sample 0 1 1 1 (Fin 5), sample 10 2 3 4 (Fin 7)])) c ! 0 = Fin 0)
        first_difference_cols
   \<and> get_col (feature_engineering (track [sample 0 1 1 1 (Fin 5), sample 10 2 3 4 (Fin 7)])) ''vx''
        = [Fin 0, Fin 22200]
   \<and> get_col (feature_engineering (track [sample 0 1 1 1 (Fin 5), sample 10 2 3 4 (Fin 7)])) ''ax''
        = [Fin 0, Fin 2220]"
proof -
  let ?df = "track [sample 0 1 1 1 (Fin 5), sample 10 2 3 4 (Fin 7)]"
  have ne: "rows ?df \<noteq> []"
    by (simp add: track_def)
  have vx: "get_col (feature_engineering ?df) ''vx'' = [Fin 0, Fin 22200]"
    by code_simp
  have ax: "get_col (feature_engineering ?df) ''ax'' = [Fin 0, Fin 2220]"
    by code_simp
  from derived_columns [OF refl, of ?df] ne
  have "\<forall>c \<in> set first_difference_cols. get_col (feature_engineering ?df) c ! 0 = Fin 0"
    by blast
  then show ?thesis
    using ne vx ax by (simp only: list_all_iff simp_thms)
qed

section \<open>Time deltas\<close>

lemma diff_from_nth:
  "i < length xs \<Longrightarrow> diff_from p xs ! i = fsub (xs ! i) (if i = 0 then p else xs ! (i - 1))"
proof (induction xs arbitrary: p i)
  case Nil
  then show ?case by simp
next
  case (Cons x xs)
  show ?case
  proof (cases i)
    case 0
    then show ?thesis by simp
  next
    case (Suc j)
    with Cons show ?thesis by (cases j) simp_all
  qed
qed

lemma diff_nth:
  "0 < i \<Longrightarrow> i < length xs \<Longrightarrow> diff xs ! i = fsub (xs ! i) (xs ! (i - 1))"
  by (cases xs) (auto simp: diff_from_nth nth_Cons split: nat.splits)

lemma fsub_Fin [simp]: "fsub (Fin a) (Fin b) = Fin (a - b)"
  by (simp add: fsub_def)

lemma delta_time_nth:
  assumes "i < length ts"
  shows "replace [Fin 0] (Fin 1) (fillna (Fin 1) (total_seconds (diff (map Fin ts)))) ! i =
     Fin (if i = 0 then 1 else if ts ! i - ts ! (i - 1) = 0 then 1 else ts ! i - ts ! (i - 1))"
proof (cases "i = 0")
  case True
  with assms show ?thesis
    using delta_time_first [of "map Fin ts"] by auto
next
  case False
  with assms have "diff (map Fin ts) ! i = Fin (ts ! i - ts ! (i - 1))"
    by (simp add: diff_nth)
  with assms False show ?thesis
    by (simp add: replace_def fillna_def total_seconds_def isna_def)
qed

text \<open>
  C4, as the code has it. On a cleaned trajectory whose timestamps increase strictly, the
  derived \<open>delta_time\<close> is 1 in the first row and the difference of consecutive
  timestamps elsewhere (an exact 0 would be replaced by 1); it is positive in every row,
  and at least 1 in every row when the timestamps are whole seconds.
\<close>

theorem delta_time_positive:
  assumes "get_col df ''time'' = map Fin ts" and "sorted_wrt (<) ts"
  shows "\<exists>ds. get_col (feature_engineering df) ''delta_time'' = map Fin ds
       \<and> length ds = length ts
       \<and> (ts \<noteq> [] \<longrightarrow> ds ! 0 = 1)
       \<and> (\<forall>i. 0 < i \<and> i < length ts \<longrightarrow>
            ds ! i = (if ts ! i - ts ! (i - 1) = 0 then 1 else ts ! i - ts ! (i - 1)))
       \<and> (\<forall>i < length ts. 0 < ds ! i)
       \<and> ((\<forall>t \<in> set ts. t \<in> \<int>) \<longrightarrow> (\<forall>i < length ts. 1 \<le> ds ! i))"
proof -
  define ds where "ds = map (\<lambda>i. if i = 0 then 1
       else if ts ! i - ts ! (i - 1) = 0 then 1 else ts ! i - ts ! (i - 1)) [0..<length ts]"
  have len: "length ds = length ts"
    by (simp add: ds_def)
  have nth: "ds ! i = (if i = 0 then 1
       else if ts ! i - ts ! (i - 1) = 0 then 1 else ts ! i - ts ! (i - 1))" if "i < length ts" for i
    using that by (simp add: ds_def)
  have col: "get_col (feature_engineering df) ''delta_time'' = map Fin ds"
  proof (rule nth_equalityI)
    show "length (get_col (feature_engineering df) ''delta_time'') = length (map Fin ds)"
      using assms(1) by (simp add: fe_delta_time len total_seconds_def)
  next
    fix i assume "i < length (get_col (feature_engineering df) ''delta_time'')"
    then have i: "i < length ts"
      using assms(1) by (simp add: fe_delta_time total_seconds_def)
    then show "get_col (feature_engineering df) ''delta_time'' ! i = map Fin ds ! i"
      using delta_time_nth [OF i] by (simp add: fe_delta_time assms(1) len nth)
  qed
  have incr: "ts ! (i - 1) < ts ! i" if "0 < i" "i < length ts" for i
    using that assms(2) by (simp add: sorted_wrt_iff_nth_less)
  have pos: "0 < ds ! i" if "i < length ts" for i
    using that incr [of i] by (auto simp: nth)
  have whole: "1 \<le> ds ! i" if "i < length ts" and ints: "\<forall>t \<in> set ts. t \<in> \<int>" for i
  proof (cases "i = 0")
    case True
    with that show ?thesis by (simp add: nth)
  next
    case False
    with that have "ts ! i \<in> \<int>" "ts ! (i - 1) \<in> \<int>"
      by simp_all
    then obtain a b :: int where ab: "ts ! i = of_int a" "ts ! (i - 1) = of_int b"
      by (auto elim!: Ints_cases)
    with incr [of i] False that(1) have "b < a"
      by simp
    then have "1 \<le> a - b"
      by simp
    then have "(1::real) \<le> of_int (a - b)"
      by (simp only: of_int_1_le_iff)
    with False that(1) ab show ?thesis
      by (simp add: nth)
  qed
  show ?thesis
    using col len nth pos whole by (intro exI [of _ ds]) auto
qed

theorem delta_time_positive_witness:
  "get_col (track [sample 0 1 1 1 (Fin 5), sample (1/2) 1 1 1 (Fin 5), sample 10 1 1 1 (Fin 5)]) ''time''
     = map Fin [0, 1/2, 10]
   \<and> sorted_wrt (<) [0, 1/2, 10 :: real]
   \<and> get_col (feature_engineering
        (track [sample 0 1 1 1 (Fin 5), sample (1/2) 1 1 1 (Fin 5), sample 10 1 1 1 (Fin 5)]))
        ''delta_time'' = [Fin 1, Fin (1/2), Fin (19/2)]"
proof -
  let ?df = "track [sample 0 1 1 1 (Fin 5), sample (1/2) 1 1 1 (Fin 5), sample 10 1 1 1 (Fin 5)]"
  have t: "get_col ?df ''time'' = map Fin [0, 1/2, 10]"
    by (simp add: get_col_def track_def sample_def num_cell_def)
  have s: "sorted_wrt (<) [0, 1/2, 10 :: real]"
    by simp
  from delta_time_positive [OF t s] obtain ds
    where "get_col (feature_engineering ?df) ''delta_time'' = map Fin ds" "length ds = 3"
      "ds ! 0 = 1" "ds ! 1 = 1/2" "ds ! 2 = 19/2"
    by (auto simp: nth_Cons')
  then show ?thesis
    using t s by code_simp
qed

text \<open>The claim as stated fails on timestamps half a second apart.\<close>

theorem delta_time_counterexample:
  "result_col (preprocess_file (csv_file ''track.csv''
      (track [sample 0 1 1 1 (Fin 5), sample (1/2) 1 1 1 (Fin 5)]))) ''time''
     = Some [Fin 0, Fin (1/2)]
   \<and> result_col (preprocess_file (csv_file ''track.csv''
      (track [sample 0 1 1 1 (Fin 5), sample (1/2) 1 1 1 (Fin 5)]))) ''delta_time''
     = Some [Fin 1, Fin (1/2)]
   \<and> \<not> (1 :: real) \<le> 1/2"
  by code_simp

section \<open>The batch\<close>

lemma preprocess_all_append:
  "preprocess_all (pre @ post) st =
     (case preprocess_all pre st of Inl x \<Rightarrow> Inl x | Inr st' \<Rightarrow> preprocess_all post st')"
  by (induction pre arbitrary: st) (simp_all split: result.splits)

lemma preprocess_all_no_raise:
  assumes "\<forall>g \<in> set files. \<forall>e. preprocess_file g \<noteq> Raised e"
  shows "\<exists>st'. preprocess_all files st = Inr st'
           \<and> length (printed st') = length (printed st) + length files"
  using assms
proof (induction files arbitrary: st)
  case Nil
  then show ?case by simp
next
  case (Cons f files)
  show ?case
  proof (cases "preprocess_file f")
    case (Raised e)
    with Cons.prems show ?thesis by simp
  next
    case (Skipped r)
    let ?st = "st\<lparr>printed := printed st @ [''[INFO] Skipped '' @ name f]\<rparr>"
    from Cons.IH [of ?st] Cons.prems Skipped show ?thesis by auto
  next
    case (Returned df)
    let ?st = "st\<lparr>output_csv := Some df, printed := printed st @ [''[INFO] Processed and saved'']\<rparr>"
    from Cons.IH [of ?st] Cons.prems Returned show ?thesis by auto
  qed
qed

text \<open>
  C7, as the code has it. A skipped file does not end the batch: its name is printed and the
  loop goes on with the next file, so that a batch in which no file raises processes every
  file. An exception raised while a file is processed is not caught: it leaves
  \<open>preprocess_all\<close> at once, with the later files unprocessed.
\<close>

theorem batch_skip_continues_raise_aborts:
  "(preprocess_file f = Skipped r \<longrightarrow>
      preprocess_all (f # files) st =
        preprocess_all files (st\<lparr>printed := printed st @ [''[INFO] Skipped '' @ name f]\<rparr>))
   \<and> (preprocess_file f = Raised e \<longrightarrow> preprocess_all (f # files) st = Inl (e, st))
   \<and> ((\<forall>g \<in> set files. \<forall>e. preprocess_file g \<noteq> Raised e) \<longrightarrow>
        (\<exists>st'. preprocess_all files st = Inr st'
           \<and> length (printed st') = length (printed st) + length files))"
  using preprocess_all_no_raise [of files st] by simp

lemma tiny_file_skipped:
  "preprocess_file \<lparr>name = ''tiny.csv'', fsize = 3, read_csv = Inl EmptyDataError\<rparr> = Skipped EmptyFile"
  by (simp add: preprocess_file_def)

lemma unreadable_file_raises:
  "preprocess_file \<lparr>name = ''blank.csv'', fsize = 12, read_csv = Inl EmptyDataError\<rparr>
     = Raised EmptyDataError"
  by (simp add: preprocess_file_def)

theorem batch_skip_continues_raise_aborts_witness:
  "preprocess_file \<lparr>name = ''tiny.csv'', fsize = 3, read_csv = Inl EmptyDataError\<rparr> = Skipped EmptyFile
   \<and> preprocess_all [\<lparr>name = ''tiny.csv'', fsize = 3, read_csv = Inl EmptyDataError\<rparr>]
        \<lparr>output_csv = None, printed = []\<rparr>
      = Inr \<lparr>output_csv = None, printed = [''[INFO] Skipped tiny.csv'']\<rparr>
   \<and> preprocess_file \<lparr>name = ''blank.csv'', fsize = 12, read_csv = Inl EmptyDataError\<rparr>
      = Raised EmptyDataError
   \<and> preprocess_all [\<lparr>name = ''blank.csv'', fsize = 12, read_csv = Inl EmptyDataError\<rparr>,
                     \<lparr>name = ''tiny.csv'', fsize = 3, read_csv = Inl EmptyDataError\<rparr>]
        \<lparr>output_csv = None, printed = []\<rparr>
      = Inl (EmptyDataError, \<lparr>output_csv = None, printed = []\<rparr>)"
  using
    batch_skip_continues_raise_aborts
      [of "\<lparr>name = ''tiny.csv'', fsize = 3, read_csv = Inl EmptyDataError\<rparr>" EmptyFile "[]"
          "\<lparr>output_csv = None, printed = []\<rparr>"]
    batch_skip_continues_raise_aborts
      [of "\<lparr>name = ''blank.csv'', fsize = 12, read_csv = Inl EmptyDataError\<rparr>" _
          "[\<lparr>name = ''tiny.csv'', fsize = 3, read_csv = Inl EmptyDataError\<rparr>]"
          "\<lparr>output_csv = None, printed = []\<rparr>" EmptyDataError]
    tiny_file_skipped unreadable_file_raises
  by simp

text \<open>
  The claim as stated fails: a file of millisecond timestamps with the loader's \<open>icao24\<close>
  column raises IndexError at line 121, and the well-formed file after it is never
  processed; so does a file that \<open>read_csv\<close> rejects.
\<close>

theorem batch_isolation_counterexample:
  "preprocess_all
     [csv_file ''ms.csv'' (track_of ''a24f71'' [sample 1700000000000 1 1 1 (Fin 5)]),
      csv_file ''ok.csv'' (track [sample 0 1 1 1 (Fin 5), sample 10 2 3 4 (Fin 7)])]
     \<lparr>output_csv = None, printed = []\<rparr>
     = Inl (IndexError, \<lparr>output_csv = None, printed = []\<rparr>)
   \<and> result_col (preprocess_file
        (csv_file ''ok.csv'' (track [sample 0 1 1 1 (Fin 5), sample 10 2 3 4 (Fin 7)]))) ''time''
     = Some [Fin 0, Fin 10]
   \<and> preprocess_all
     [\<lparr>name = ''blank.csv'', fsize = 12, read_csv = Inl EmptyDataError\<rparr>,
      csv_file ''ok.csv'' (track [sample 0 1 1 1 (Fin 5), sample 10 2 3 4 (Fin 7)])]
     \<lparr>output_csv = None, printed = []\<rparr>
     = Inl (EmptyDataError, \<lparr>output_csv = None, printed = []\<rparr>)"
  by code_simp

text \<open>
  C8. Every returned frame is written to the one output path, so after a batch in which
  every file is processed successfully the path holds the last file's frame and nothing
  else.
\<close>

theorem last_write_wins:
  assumes "files \<noteq> []" and "\<forall>f \<in> set files. \<exists>df. preprocess_file f = Returned df"
  shows "\<exists>st' df. preprocess_all files st = Inr st'
           \<and> preprocess_file (last files) = Returned df \<and> output_csv st' = Some df"
  using assms
proof (induction files arbitrary: st)
  case Nil
  then show ?case by simp
next
  case (Cons f files)
  from Cons.prems obtain df where df: "preprocess_file f = Returned df"
    by auto
  let ?st = "st\<lparr>output_csv := Some df, printed := printed st @ [''[INFO] Processed and saved'']\<rparr>"
  show ?case
  proof (cases "files = []")
    case True
    with df show ?thesis by simp
  next
    case False
    with Cons.IH [of ?st] Cons.prems df show ?thesis by simp
  qed
qed

lemma returned_if_col: "result_col res c = Some xs \<Longrightarrow> \<exists>df. res = Returned df \<and> get_col df c = xs"
  by (cases res) simp_all

theorem last_write_wins_witness:
  "[csv_file ''a.csv'' (track [sample 0 1 1 1 (Fin 5), sample 10 2 3 4 (Fin 7)]),
    csv_file ''b.csv'' (track [sample 20 1 1 1 (Fin 5), sample 30 2 3 4 (Fin 7)])] \<noteq> []
   \<and> (\<exists>df. preprocess_file (csv_file ''a.csv'' (track [sample 0 1 1 1 (Fin 5), sample 10 2 3 4 (Fin 7)]))
          = Returned df \<and> get_col df ''time'' = [Fin 0, Fin 10])
   \<and> (\<exists>st' df.
        preprocess_all
          [csv_file ''a.csv'' (track [sample 0 1 1 1 (Fin 5), sample 10 2 3 4 (Fin 7)]),
           csv_file ''b.csv'' (track [sample 20 1 1 1 (Fin 5), sample 30 2 3 4 (Fin 7)])]
          \<lparr>output_csv = None, printed = []\<rparr> = Inr st'
        \<and> output_csv st' = Some df \<and> get_col df ''time'' = [Fin 20, Fin 30])"
proof -
  let ?a = "csv_file ''a.csv'' (track [sample 0 1 1 1 (Fin 5), sample 10 2 3 4 (Fin 7)])"
  let ?b = "csv_file ''b.csv'' (track [sample 20 1 1 1 (Fin 5), sample 30 2 3 4 (Fin 7)])"
  have "result_col (preprocess_file ?a) ''time'' = Some [Fin 0, Fin 10]"
    by code_simp
  then have a: "\<exists>df. preprocess_file ?a = Returned df \<and> get_col df ''time'' = [Fin 0, Fin 10]"
    by (rule returned_if_col)
  have "result_col (preprocess_file ?b) ''time'' = Some [Fin 20, Fin 30]"
    by code_simp
  then obtain dfb where b: "preprocess_file ?b = Returned dfb" "get_col dfb ''time'' = [Fin 20, Fin 30]"
    using returned_if_col by blast
  have all: "\<forall>f \<in> set [?a, ?b]. \<exists>df. preprocess_file f = Returned df"
    using a b by auto
  from last_write_wins [of "[?a, ?b]" "\<lparr>output_csv = None, printed = []\<rparr>", OF _ all]
  obtain st' df where "preprocess_all [?a, ?b] \<lparr>output_csv = None, printed = []\<rparr> = Inr st'"
    "preprocess_file ?b = Returned df" "output_csv st' = Some df"
    by auto
  with a b show ?thesis
    by auto
qed

section \<open>The merge\<close>

text \<open>
  C9. When the listing holds no processed table (nothing at all, or only the merger's own
  earlier outputs), \<open>merge_processed_files\<close> prints an error, returns \<open>None\<close> and writes
  neither artifact.
\<close>

theorem merge_without_inputs:
  assumes "\<forall>(f, df) \<in> set listing. sublist ''merged_dataset'' f"
  shows "merge_processed_files parquet_ok listing st =
           (None, st\<lparr>merge_printed := merge_printed st @ [''[ERROR] No processed CSV files found.'']\<rparr>)
       \<and> merged_csv (snd (merge_processed_files parquet_ok listing st)) = merged_csv st
       \<and> merged_parquet (snd (merge_processed_files parquet_ok listing st)) = merged_parquet st"
proof -
  have "filter (\<lambda>(f, _). \<not> sublist ''merged_dataset'' f) listing = []"
    using assms by (auto simp: filter_empty_conv)
  then show ?thesis
    by (simp add: merge_processed_files_def)
qed

theorem merge_without_inputs_witness:
  "sublist ''merged_dataset'' ''../data/processed/merged_dataset.csv''
   \<and> merge_processed_files True [(''../data/processed/merged_dataset.csv'', track [])]
        \<lparr>merged_csv = None, merged_parquet = None, merge_printed = []\<rparr>
      = (None, \<lparr>merged_csv = None, merged_parquet = None,
                merge_printed = [''[ERROR] No processed CSV files found.'']\<rparr>)"
proof -
  have s: "sublist ''merged_dataset'' ''../data/processed/merged_dataset.csv''"
    by code_simp
  from merge_without_inputs [of "[(''../data/processed/merged_dataset.csv'', track [])]" True
      "\<lparr>merged_csv = None, merged_parquet = None, merge_printed = []\<rparr>"] s
  show ?thesis by simp
qed

lemma merge_with_inputs_example:
  "fst (merge_processed_files True
      [(''../data/processed/processed_file.csv'', track [sample 0 1 1 1 (Fin 5)])]
      \<lparr>merged_csv = None, merged_parquet = None, merge_printed = []\<rparr>) =
   Some \<lparr>columns = [''time'', ''latitude'', ''longitude'', ''baro_altitude'', ''velocity'', ''flight_id''],
     rows = [\<lparr>nums = [(''time'', Fin 0), (''latitude'', Fin 1), (''longitude'', Fin 1),
                 (''baro_altitude'', Fin 1), (''velocity'', Fin 5)],
              strs = [(''flight_id'', ''flight_001'')]\<rparr>]\<rparr>"
  by code_simp

section \<open>The shape of \<open>preprocess_file\<close>\<close>

lemma columns_dropna [simp]: "columns (dropna cs df) = columns df"
  by (simp add: dropna_def)

lemma rows_dropna [simp]:
  "rows (dropna cs df) = filter (\<lambda>r. \<forall>c \<in> set cs. \<not> isna (num_cell r c)) (rows df)"
  by (simp add: dropna_def)

lemma columns_sort_values [simp]: "columns (sort_values c df) = columns df"
  by (simp add: sort_values_def)

lemma rows_sort_values [simp]:
  "rows (sort_values c df) = sort_key (\<lambda>r. fkey (num_cell r c)) (rows df)"
  by (simp add: sort_values_def)

lemma columns_drop_duplicates [simp]: "columns (drop_duplicates df) = columns df"
  by (simp add: drop_duplicates_def)

lemma rows_drop_duplicates [simp]: "rows (drop_duplicates df) = dedup [] (rows df)"
  by (simp add: drop_duplicates_def)

lemma columns_assign_txt [simp]: "columns (assign_txt df c s) = with_column (columns df) c"
  by (simp add: assign_txt_def)

lemma rows_assign_txt [simp]: "rows (assign_txt df c s) = map (set_txt c s) (rows df)"
  by (simp add: assign_txt_def)

lemma set_columns_run_steps:
  "set (columns (run_steps ss df)) = set (columns df) \<union> fst ` set ss"
  by (induction ss arbitrary: df) auto

lemma rows_empty_run_steps [simp]: "rows (run_steps ss df) = [] \<longleftrightarrow> rows df = []"
  by (metis length_0_conv length_rows_run_steps)

lemma rows_empty_run_step [simp]: "rows (run_step s df) = [] \<longleftrightarrow> rows df = []"
  by (metis length_0_conv length_rows_run_step)

lemma set_columns_basic_cleaning [simp]:
  "set (columns (basic_cleaning df)) = insert ''time'' (set (columns df))"
  by (simp add: basic_cleaning_def)

lemma set_columns_interpolate_numeric [simp]:
  "set (columns (interpolate_numeric df)) = set (columns df) \<union> set numeric_cols"
  by (simp add: interpolate_numeric_def set_columns_run_steps interpolation_step_def image_image)

lemma set_columns_feature_engineering:
  "set (columns (feature_engineering df)) = set (columns df) \<union> fst ` set feature_steps"
  by (simp add: feature_engineering_def set_columns_run_steps)

lemma feature_step_names:
  "fst ` set feature_steps = insert ''delta_time'' (set first_difference_cols)"
  by (auto simp: feature_steps_def first_difference_cols_def)

lemma dedup_Nil_iff [simp]: "dedup seen xs = [] \<longleftrightarrow> set xs \<subseteq> set seen"
  by (induction xs arbitrary: seen) auto

lemma parsed_time_column:
  "get_col (run_step (''time'', \<lambda>d. Series (map to_datetime (get_col d ''time''))) df) ''time''
     = map to_datetime (get_col df ''time'')"
  by (simp add: get_col_run_step)

lemma rows_basic_cleaning_empty:
  assumes "\<forall>r \<in> set (rows df). isna (to_datetime (num_cell r ''time''))"
  shows "rows (basic_cleaning df) = []"
proof -
  let ?d = "run_step (''time'', \<lambda>d. Series (map to_datetime (get_col d ''time''))) df"
  have "map (\<lambda>r. num_cell r ''time'') (rows ?d) = map to_datetime (get_col df ''time'')"
    using parsed_time_column [of df] by (simp add: get_col_def)
  then have "\<forall>x \<in> set (map (\<lambda>r. num_cell r ''time'') (rows ?d)). isna x"
    using assms by (simp add: get_col_def)
  then have "\<forall>r \<in> set (rows ?d). isna (num_cell r ''time'')"
    by simp
  then have "filter (\<lambda>r. \<forall>c \<in> set [''time'']. \<not> isna (num_cell r c)) (rows ?d) = []"
    by (simp add: filter_empty_conv)
  then show ?thesis
    by (simp add: basic_cleaning_def)
qed

lemma preprocess_file_accepted:
  assumes "10 \<le> fsize f" and "read_csv f = Inr df"
    and "set essential_cols \<subseteq> set (columns df)"
    and "rows (dropna essential_cols (velocity_placeholder df)) \<noteq> []"
  shows "preprocess_file f =
     icao24_handling (feature_engineering (interpolate_numeric
       (basic_cleaning (dropna essential_cols (velocity_placeholder df)))))"
proof -
  have "filter (\<lambda>c. c \<notin> set (columns df)) essential_cols = []"
    using assms(3) by (auto simp: filter_empty_conv)
  moreover have "columns (velocity_placeholder df) \<noteq> []"
    using assms(3) by (auto simp: velocity_placeholder_def essential_cols_def with_column_def)
  ultimately show ?thesis
    using assms(1,2,4) by (simp add: preprocess_file_def empty_frame_def Let_def)
qed

lemma rows_velocity_placeholder_present:
  assumes "\<forall>r \<in> set (rows df). \<forall>c \<in> set essential_cols. \<not> isna (num_cell r c)"
  shows "\<forall>r \<in> set (rows (velocity_placeholder df)). \<forall>c \<in> set essential_cols. \<not> isna (num_cell r c)"
  using assms by (auto simp: velocity_placeholder_def essential_cols_def assign.simps)

lemma time_velocity_placeholder:
  "get_col (velocity_placeholder df) ''time'' = get_col df ''time''"
  by (simp add: velocity_placeholder_def get_col_assign)

lemma length_rows_velocity_placeholder [simp]:
  "length (rows (velocity_placeholder df)) = length (rows df)"
  by (simp add: velocity_placeholder_def)

lemma set_columns_velocity_placeholder [simp]:
  "set (columns (velocity_placeholder df)) = insert ''velocity'' (set (columns df))"
  by (auto simp: velocity_placeholder_def)




section \<open>Gap filling\<close>

lemma length_interpolate_linear [simp]: "length (interpolate_linear xs) = length xs"
  by (simp add: interpolate_linear_def)

lemma length_ffill_from [simp]: "length (ffill_from p xs) = length xs"
  by (induction xs arbitrary: p) simp_all

lemma length_ffill [simp]: "length (ffill xs) = length xs"
  by (simp add: ffill_def)

lemma length_bfill [simp]: "length (bfill xs) = length xs"
  by (induction xs) simp_all

lemma length_fill_gaps [simp]: "length (fill_gaps xs) = length xs"
  by (simp add: fill_gaps_def)

lemma interpolate_linear_nth:
  "k < length xs \<Longrightarrow>
   interpolate_linear xs ! k = (if isna (xs ! k) then interp_at xs k else xs ! k)"
  by (simp add: interpolate_linear_def)

lemma prev_valid_Suc:
  "prev_valid xs (Suc k) = (if \<not> isna (xs ! k) then Some k else prev_valid xs k)"
  by (simp add: prev_valid_def)

lemma prev_valid_None: "\<forall>m < k. isna (xs ! m) \<Longrightarrow> prev_valid xs k = None"
  by (induction k) (simp_all add: prev_valid_Suc, simp add: prev_valid_def)

lemma prev_valid_Some:
  "i < k \<Longrightarrow> \<not> isna (xs ! i) \<Longrightarrow> \<forall>m. i < m \<and> m < k \<longrightarrow> isna (xs ! m) \<Longrightarrow>
   prev_valid xs k = Some i"
proof (induction k)
  case 0
  then show ?case by simp
next
  case (Suc k)
  show ?case
  proof (cases "i = k")
    case True
    with Suc.prems show ?thesis by (simp add: prev_valid_Suc)
  next
    case False
    with Suc.prems have "i < k" "isna (xs ! k)" by auto
    with Suc show ?thesis by (simp add: prev_valid_Suc)
  qed
qed

lemma next_valid_None:
  "\<forall>m. k < m \<and> m < length xs \<longrightarrow> isna (xs ! m) \<Longrightarrow> next_valid xs k = None"
  by (auto simp: next_valid_def find_None_iff)

lemma next_valid_Some:
  assumes "k < j" "j < length xs" "\<not> isna (xs ! j)" "\<forall>m. k < m \<and> m < j \<longrightarrow> isna (xs ! m)"
  shows "next_valid xs k = Some j"
proof -
  let ?is = "[Suc k..<length xs]"
  have "j - Suc k < length ?is" "?is ! (j - Suc k) = j"
    using assms by simp_all
  moreover have "\<forall>n < j - Suc k. isna (xs ! (?is ! n))"
    using assms by auto
  ultimately show ?thesis
    using assms(3) unfolding next_valid_def find_Some_iff
    by (intro exI [of _ "j - Suc k"]) simp
qed

lemma bfill_nth_valid:
  "k < length ys \<Longrightarrow> \<not> isna (ys ! k) \<Longrightarrow> bfill ys ! k = ys ! k"
  by (induction ys arbitrary: k) (auto simp: nth_Cons split: nat.splits)

lemma bfill_nth_gap:
  "k \<le> j \<Longrightarrow> j < length ys \<Longrightarrow> \<not> isna (ys ! j) \<Longrightarrow> \<forall>m. k \<le> m \<and> m < j \<longrightarrow> isna (ys ! m) \<Longrightarrow>
   bfill ys ! k = ys ! j"
proof (induction ys arbitrary: k j)
  case Nil
  then show ?case by simp
next
  case (Cons y ys)
  show ?case
  proof (cases k)
    case 0
    show ?thesis
    proof (cases j)
      case 0
      with Cons.prems \<open>k = 0\<close> show ?thesis by simp
    next
      case (Suc j')
      with Cons.prems \<open>k = 0\<close> have y: "isna y" by auto
      have "bfill ys ! 0 = ys ! j'"
        using Cons.prems \<open>k = 0\<close> Suc by (intro Cons.IH) auto
      moreover have "bfill ys \<noteq> []"
        using Cons.prems Suc by (cases ys) auto
      ultimately show ?thesis
        using y \<open>k = 0\<close> Suc by (cases "bfill ys") simp_all
    qed
  next
    case (Suc k')
    with Cons.prems obtain j' where j': "j = Suc j'" by (cases j) auto
    have "bfill ys ! k' = ys ! j'"
      using Cons.prems Suc j' by (intro Cons.IH) auto
    with Suc j' show ?thesis by simp
  qed
qed

lemma ffill_from_nth_valid:
  "k < length ys \<Longrightarrow> \<not> isna (ys ! k) \<Longrightarrow> ffill_from p ys ! k = ys ! k"
  by (induction ys arbitrary: k p) (auto simp: nth_Cons split: nat.splits)

lemma ffill_nth_valid: "k < length ys \<Longrightarrow> \<not> isna (ys ! k) \<Longrightarrow> ffill ys ! k = ys ! k"
  by (simp add: ffill_def ffill_from_nth_valid)

lemma fill_gaps_valid:
  assumes "k < length xs" "\<not> isna (xs ! k)"
  shows "fill_gaps xs ! k = xs ! k"
  using assms
  by (simp add: fill_gaps_def ffill_nth_valid bfill_nth_valid interpolate_linear_nth)

lemma lerp_Fin:
  "i < j \<Longrightarrow> lerp i (Fin a) j (Fin b) k = Fin ((b - a) / (real j - real i) * (real k - real i) + a)"
  by (simp add: lerp_def fsub_def)

lemma fill_gaps_interior:
  assumes "i < k" "k < j" "j < length xs" "xs ! i = Fin a" "xs ! j = Fin b"
    and "\<forall>m. i < m \<and> m < j \<longrightarrow> isna (xs ! m)"
  shows "fill_gaps xs ! k = Fin (a + (b - a) / (real j - real i) * (real k - real i))"
proof -
  have "prev_valid xs k = Some i"
    using assms by (intro prev_valid_Some) (auto simp: isna_def)
  moreover have "next_valid xs k = Some j"
    using assms by (intro next_valid_Some) (auto simp: isna_def)
  moreover have "isna (xs ! k)"
    using assms by simp
  ultimately have "interpolate_linear xs ! k =
      Fin ((b - a) / (real j - real i) * (real k - real i) + a)"
    using assms by (simp add: interpolate_linear_nth interp_at_def lerp_Fin)
  then show ?thesis
    using assms(2,3)
    by (simp add: fill_gaps_def ffill_nth_valid bfill_nth_valid isna_def add.commute)
qed

lemma fill_gaps_leading:
  assumes "k < j" "j < length xs" "\<not> isna (xs ! j)" "\<forall>m < j. isna (xs ! m)"
  shows "fill_gaps xs ! k = xs ! j"
proof -
  let ?ys = "interpolate_linear xs"
  have j: "?ys ! j = xs ! j"
    using assms by (simp add: interpolate_linear_nth)
  have "\<forall>m. k \<le> m \<and> m < j \<longrightarrow> isna (?ys ! m)"
  proof (intro allI impI)
    fix m assume m: "k \<le> m \<and> m < j"
    then have "prev_valid xs m = None"
      using assms(4) by (intro prev_valid_None) auto
    with m assms show "isna (?ys ! m)"
      by (simp add: interpolate_linear_nth interp_at_def isna_def)
  qed
  then have "bfill ?ys ! k = ?ys ! j"
    using assms j by (intro bfill_nth_gap) auto
  then show ?thesis
    using assms j by (simp add: fill_gaps_def ffill_nth_valid)
qed

lemma fill_gaps_trailing:
  assumes "i < k" "k < length xs" "\<not> isna (xs ! i)" "\<forall>m. i < m \<and> m < length xs \<longrightarrow> isna (xs ! m)"
  shows "fill_gaps xs ! k = xs ! i"
proof -
  have "prev_valid xs k = Some i"
    using assms by (intro prev_valid_Some) auto
  moreover have "next_valid xs k = None"
    using assms by (intro next_valid_None) auto
  moreover have "isna (xs ! k)"
    using assms by simp
  ultimately have "interpolate_linear xs ! k = xs ! i"
    using assms by (simp add: interpolate_linear_nth interp_at_def)
  then show ?thesis
    using assms by (simp add: fill_gaps_def ffill_nth_valid bfill_nth_valid)
qed

lemma interpolate_numeric_col:
  assumes "c \<in> set numeric_cols" and "c \<in> set (columns df)"
  shows "get_col (interpolate_numeric df) c = fill_gaps (get_col df c)"
proof -
  consider "c = ''latitude''" | "c = ''longitude''" | "c = ''baro_altitude''" | "c = ''velocity''"
    using assms(1) by (auto simp: numeric_cols_def)
  then show ?thesis
    using assms(2)
    by cases
      (simp_all add: interpolate_numeric_def numeric_cols_def interpolation_step_def get_col_run_step)
qed

lemma set_dedup: "set (dedup seen xs) = set xs - set seen"
  by (induction xs arbitrary: seen) auto

lemma sorted_map_dedup: "sorted (map f xs) \<Longrightarrow> sorted (map f (dedup seen xs))"
  by (induction xs arbitrary: seen) (auto simp: set_dedup)

lemma distinct_dedup: "distinct (dedup seen xs)"
  by (induction xs arbitrary: seen) (auto simp: set_dedup)

lemma sorted_time_basic_cleaning:
  "sorted (map fkey (get_col (basic_cleaning df) ''time''))"
proof -
  have "sorted (map (\<lambda>r. fkey (num_cell r ''time'')) (rows (basic_cleaning df)))"
    by (simp add: basic_cleaning_def sorted_map_dedup)
  then show ?thesis
    by (simp add: get_col_def o_def)
qed



section \<open>What a returned frame looks like\<close>

lemma map_set_num_replicate:
  "map (set_num c x) rs = map2 (\<lambda>r x. set_num c x r) rs (replicate (length rs) x)"
  by (induction rs) simp_all

lemma rows_assign:
  "rows (assign df c v) =
     map2 (\<lambda>r x. set_num c x r) (rows df) (broadcast (length (rows df)) v)"
  by (cases v) (simp_all add: assign.simps map_set_num_replicate)

lemma in_rows_assign:
  assumes "r \<in> set (rows (assign df c v))"
  obtains r0 x where "r0 \<in> set (rows df)" "r = set_num c x r0"
proof -
  from assms obtain p where "p \<in> set (zip (rows df) (broadcast (length (rows df)) v))"
    "r = set_num c (snd p) (fst p)"
    by (auto simp: rows_assign)
  then show ?thesis
    using that [of "fst p" "snd p"] by (metis in_set_zipE prod.collapse)
qed

lemma in_rows_run_step:
  assumes "r \<in> set (rows (run_step s df))"
  obtains r0 x where "r0 \<in> set (rows df)" "r = set_num (fst s) x r0"
  using assms in_rows_assign unfolding run_step_def by blast

lemma preprocess_file_Returned:
  assumes "preprocess_file f = Returned out"
  obtains df where "read_csv f = Inr df" "10 \<le> fsize f"
    "set essential_cols \<subseteq> set (columns df)"
    "rows (dropna essential_cols (velocity_placeholder df)) \<noteq> []"
    "icao24_handling (feature_engineering (interpolate_numeric
       (basic_cleaning (dropna essential_cols (velocity_placeholder df))))) = Returned out"
proof -
  from assms have size: "10 \<le> fsize f"
    by (auto simp: preprocess_file_def split: if_splits)
  with assms obtain df where df: "read_csv f = Inr df"
    by (cases "read_csv f") (auto simp: preprocess_file_def)
  from assms size df have cols: "filter (\<lambda>c. c \<notin> set (columns df)) essential_cols = []"
    by (auto simp: preprocess_file_def Let_def split: if_splits)
  then have sub: "set essential_cols \<subseteq> set (columns df)"
    by (auto simp: filter_empty_conv)
  from assms size df cols have ne: "rows (dropna essential_cols (velocity_placeholder df)) \<noteq> []"
    by (auto simp: preprocess_file_def Let_def empty_frame_def split: if_splits)
  from preprocess_file_accepted [OF size df sub ne] assms that [OF df size sub ne]
  show ?thesis by simp
qed

lemma icao24_handling_Returned:
  assumes "icao24_handling e = Returned out"
  obtains s where "out = assign_txt e ''icao24'' s"
    "''icao24'' \<in> set (columns e) \<Longrightarrow> rows e \<noteq> [] \<and> s = txt_cell (hd (rows e)) ''icao24''"
  using assms by (auto simp: icao24_handling_def split: if_splits list.splits)

lemma get_col_assign_txt: "c \<noteq> c' \<Longrightarrow> get_col (assign_txt df c' s) c = get_col df c"
  by (simp add: get_col_def o_def)

lemma get_col_feature_engineering_other:
  "c \<notin> fst ` set feature_steps \<Longrightarrow> get_col (feature_engineering df) c = get_col df c"
  by (simp add: feature_cols)

lemma get_col_interpolate_numeric_other:
  "c \<notin> set numeric_cols \<Longrightarrow> get_col (interpolate_numeric df) c = get_col df c"
  by (simp add: interpolate_numeric_def numeric_cols_def interpolation_step_def get_col_run_step)

text \<open>The rows that the basic cleaning keeps.\<close>

lemma in_rows_basic_cleaning:
  assumes "r \<in> set (rows (basic_cleaning df))"
  obtains r0 x where "r0 \<in> set (rows df)" "r = set_num ''time'' (to_datetime x) r0"
    "\<not> isna (to_datetime x)"
proof -
  let ?d = "run_step (''time'', \<lambda>d. Series (map to_datetime (get_col d ''time''))) df"
  from assms have r: "r \<in> set (rows ?d)" and t: "\<not> isna (num_cell r ''time'')"
    by (auto simp: basic_cleaning_def set_dedup)
  from r obtain r0 y where r0: "r0 \<in> set (rows df)" "r = set_num ''time'' y r0"
    by (auto elim: in_rows_run_step)
  have "num_cell r ''time'' \<in> set (get_col ?d ''time'')"
    using r by (simp add: get_col_def)
  then obtain x where "num_cell r ''time'' = to_datetime x"
    by (auto simp: parsed_time_column)
  with r0 t that [of r0 x] show ?thesis
    by simp
qed

lemma to_datetime_Fin: "\<not> isna (to_datetime x) \<Longrightarrow> \<exists>t. to_datetime x = Fin t"
  by (cases x) (auto simp: to_datetime_def isna_def split: if_splits)

lemma basic_cleaning_times:
  "\<forall>x \<in> set (get_col (basic_cleaning df) ''time''). \<exists>t. x = Fin t"
proof
  fix x assume "x \<in> set (get_col (basic_cleaning df) ''time'')"
  then obtain r where "r \<in> set (rows (basic_cleaning df))" "x = num_cell r ''time''"
    by (auto simp: get_col_def)
  then show "\<exists>t. x = Fin t"
    by (auto elim!: in_rows_basic_cleaning dest: to_datetime_Fin)
qed

lemma basic_cleaning_keeps_present:
  assumes "\<forall>r \<in> set (rows df). \<not> isna (num_cell r c)" and "c \<noteq> ''time''"
  shows "\<forall>x \<in> set (get_col (basic_cleaning df) c). \<not> isna x"
proof
  fix x assume "x \<in> set (get_col (basic_cleaning df) c)"
  then obtain r where "r \<in> set (rows (basic_cleaning df))" "x = num_cell r c"
    by (auto simp: get_col_def)
  then show "\<not> isna x"
    using assms by (auto elim!: in_rows_basic_cleaning)
qed

lemma fill_gaps_id: "\<forall>x \<in> set xs. \<not> isna x \<Longrightarrow> fill_gaps xs = xs"
  by (rule nth_equalityI) (simp_all add: fill_gaps_valid)

lemma all_Fin_map: "\<forall>x \<in> set xs. \<exists>t. x = Fin t \<Longrightarrow> \<exists>ts. xs = map Fin ts"
proof (induction xs)
  case Nil
  then show ?case by simp
next
  case (Cons x xs)
  then obtain t ts where "x = Fin t" "xs = map Fin ts" by auto
  then have "x # xs = map Fin (t # ts)" by simp
  then show ?case by (rule exI)
qed

lemma sorted_fkey_Fin: "sorted (map fkey (map Fin ts)) \<longleftrightarrow> sorted ts"
  by (induction ts) (auto simp: less_eq_prod_def)

lemma basic_cleaning_time_sorted:
  "\<exists>ts. get_col (basic_cleaning df) ''time'' = map Fin ts \<and> sorted ts"
proof -
  obtain ts where ts: "get_col (basic_cleaning df) ''time'' = map Fin ts"
    using all_Fin_map [OF basic_cleaning_times] by blast
  from sorted_time_basic_cleaning [of df] have "sorted ts"
    unfolding ts by (simp only: sorted_fkey_Fin)
  with ts show ?thesis by blast
qed

lemma distinct_rows_basic_cleaning: "distinct (rows (basic_cleaning df))"
  by (simp add: basic_cleaning_def distinct_dedup)

text \<open>
  C2, as the code has it. In every frame that \<open>preprocess_file\<close> returns the samples are in
  non-decreasing time order, and no essential column has a missing value. Exact
  duplicates are removed at the deduplication step, before the gaps are filled: the frame
  that the later steps work on has pairwise different rows.
\<close>

theorem cleaned_invariants:
  assumes "preprocess_file f = Returned out"
  shows "(\<exists>ts. get_col out ''time'' = map Fin ts \<and> sorted ts)
       \<and> (\<forall>c \<in> set essential_cols. \<forall>x \<in> set (get_col out c). \<not> isna x)
       \<and> (\<exists>d s. distinct (rows (basic_cleaning d))
            \<and> out = assign_txt (feature_engineering (interpolate_numeric (basic_cleaning d)))
                      ''icao24'' s)"
proof -
  from assms obtain df where df: "set essential_cols \<subseteq> set (columns df)"
    and ret: "icao24_handling (feature_engineering (interpolate_numeric
       (basic_cleaning (dropna essential_cols (velocity_placeholder df))))) = Returned out"
    by (rule preprocess_file_Returned)
  let ?u = "dropna essential_cols (velocity_placeholder df)"
  let ?b = "basic_cleaning ?u"
  from ret obtain s where out: "out = assign_txt (feature_engineering (interpolate_numeric ?b)) ''icao24'' s"
    by (rule icao24_handling_Returned)
  have col: "get_col out c = get_col (interpolate_numeric ?b) c" if "c \<in> set essential_cols" for c
    using that unfolding out
    by (auto simp: essential_cols_def get_col_assign_txt get_col_feature_engineering_other
        feature_steps_def)
  have time: "get_col out ''time'' = get_col ?b ''time''"
    using col [of "''time''"]
    by (simp add: essential_cols_def get_col_interpolate_numeric_other numeric_cols_def)
  have present: "\<forall>r \<in> set (rows ?u). \<not> isna (num_cell r c)" if "c \<in> set essential_cols" for c
    using that by auto
  have filled: "\<forall>x \<in> set (get_col out c). \<not> isna x"
    if c: "c \<in> set essential_cols" "c \<noteq> ''time''" for c
  proof -
    have clean: "\<forall>x \<in> set (get_col ?b c). \<not> isna x"
      using present [OF c(1)] c(2) by (rule basic_cleaning_keeps_present)
    have "c \<in> set numeric_cols" "c \<in> set (columns ?b)"
      using c df by (auto simp: essential_cols_def numeric_cols_def)
    then have "get_col (interpolate_numeric ?b) c = fill_gaps (get_col ?b c)"
      by (rule interpolate_numeric_col)
    with clean col [OF c(1)] show ?thesis
      by (simp add: fill_gaps_id)
  qed
  have "\<forall>x \<in> set (get_col out ''time''). \<not> isna x"
    using basic_cleaning_times [of ?u] unfolding time by (auto simp: isna_def)
  with filled have "\<forall>c \<in> set essential_cols. \<forall>x \<in> set (get_col out c). \<not> isna x"
    by (metis)
  moreover have "\<exists>ts. get_col out ''time'' = map Fin ts \<and> sorted ts"
    unfolding time by (rule basic_cleaning_time_sorted)
  ultimately show ?thesis
    using out distinct_rows_basic_cleaning [of ?u] by blast
qed

theorem cleaned_invariants_witness:
  "\<exists>out. preprocess_file (csv_file ''track.csv''
        (track [sample 10 2 3 4 (Fin 7), sample 0 1 1 1 NaN, sample 10 2 3 4 (Fin 7)])) = Returned out
     \<and> get_col out ''time'' = map Fin [0, 10] \<and> sorted [0, 10 :: real]
     \<and> list_all (\<lambda>c. list_all (\<lambda>x. \<not> isna x) (get_col out c)) essential_cols"
proof -
  let ?f = "csv_file ''track.csv''
        (track [sample 10 2 3 4 (Fin 7), sample 0 1 1 1 NaN, sample 10 2 3 4 (Fin 7)])"
  have "result_col (preprocess_file ?f) ''time'' = Some [Fin 0, Fin 10]"
    by code_simp
  then obtain out where out: "preprocess_file ?f = Returned out"
    and t: "get_col out ''time'' = map Fin [0, 10]"
    using returned_if_col by fastforce
  from cleaned_invariants [OF out]
  have "\<forall>c \<in> set essential_cols. \<forall>x \<in> set (get_col out c). \<not> isna x"
    by blast
  then have "list_all (\<lambda>c. list_all (\<lambda>x. \<not> isna x) (get_col out c)) essential_cols"
    by (simp only: list_all_iff)
  with out t show ?thesis
    by (intro exI [of _ out]) simp
qed

text \<open>
  The claim as stated fails. Two samples with the same timestamp of which one lacks the
  velocity are both kept and become equal rows once the velocity is filled; two samples
  with the same timestamp and different positions are both kept.
\<close>

theorem cleaned_invariants_counterexample:
  "result_col (preprocess_file (csv_file ''track.csv''
      (track [sample 0 1 1 1 (Fin 5), sample 0 1 1 1 NaN]))) ''time'' = Some [Fin 0, Fin 0]
   \<and> \<not> sorted_wrt (<) [0, 0 :: real]
   \<and> (case preprocess_file (csv_file ''track.csv''
          (track [sample 0 1 1 1 (Fin 5), sample 0 1 1 1 NaN])) of
        Returned out \<Rightarrow> \<not> distinct (rows out) | _ \<Rightarrow> False)
   \<and> result_col (preprocess_file (csv_file ''track.csv''
      (track [sample 10 1 1 1 (Fin 5), sample 10 2 1 1 (Fin 5)]))) ''time'' = Some [Fin 10, Fin 10]
   \<and> result_col (preprocess_file (csv_file ''track.csv''
      (track [sample 10 1 1 1 (Fin 5), sample 10 2 1 1 (Fin 5)]))) ''latitude'' = Some [Fin 1, Fin 2]"
  by code_simp

section \<open>Writing a column back\<close>

lemma map_of_stored: "c \<in> fst ` set al \<Longrightarrow> map_of al c = Some (case map_of al c of Some v \<Rightarrow> v | None \<Rightarrow> d)"
  by (cases "map_of al c") (auto simp: map_of_eq_None_iff)

lemma set_num_id: "stores_num r c \<Longrightarrow> set_num c (num_cell r c) r = r"
  unfolding stores_num_def set_num_def num_cell_def
  using map_of_stored [of c "nums r" NaN] by (simp add: update_triv)

lemma set_txt_id: "stores_txt r c \<Longrightarrow> set_txt c (txt_cell r c) r = r"
  unfolding stores_txt_def set_txt_def txt_cell_def
  using map_of_stored [of c "strs r" "[]"] by (simp add: update_triv)

lemma keys_delete: "fst ` set (AList.delete k al) = fst ` set al - {k}"
  by (induction al) auto

lemma stores_num_set_num [simp]:
  "stores_num (set_num c x r) c' \<longleftrightarrow> c' = c \<or> stores_num r c'"
  by (auto simp: stores_num_def set_num_def dom_update keys_delete)

lemma stores_num_set_txt [simp]:
  "c' \<noteq> c \<Longrightarrow> stores_num (set_txt c s r) c' \<longleftrightarrow> stores_num r c'"
  by (auto simp: stores_num_def set_txt_def dom_update keys_delete)

lemma stores_txt_set_txt [simp]: "stores_txt (set_txt c s r) c"
  by (auto simp: stores_txt_def set_txt_def dom_update keys_delete)

lemma set_num_set_num [simp]: "set_num c y (set_num c x r) = set_num c y r"
  by (simp add: set_num_def delete_idem)

lemma map2_set_num_id:
  "list_all (\<lambda>r. stores_num r c) rs \<Longrightarrow>
   map2 (\<lambda>r x. set_num c x r) rs (map (\<lambda>r. num_cell r c) rs) = rs"
  by (induction rs) (simp_all add: set_num_id)

lemma with_column_id [simp]: "c \<in> set cs \<Longrightarrow> with_column cs c = cs"
  by (simp add: with_column_def)

lemma with_column_idem [simp]: "with_column (with_column cs c) c = with_column cs c"
  by (simp add: with_column_def)

lemma assign_id:
  assumes "frame_stores df c" and "broadcast (length (rows df)) v = get_col df c"
  shows "assign df c v = df"
proof -
  have "rows (assign df c v) = rows df"
    using assms map2_set_num_id [of c "rows df"]
    by (simp add: rows_assign frame_stores_def get_col_def)
  moreover have "columns (assign df c v) = columns df"
    using assms(1) by (simp add: frame_stores_def)
  ultimately show ?thesis
    by simp
qed

lemma run_step_id:
  assumes "frame_stores df (fst s)" and "broadcast (length (rows df)) (snd s df) = get_col df (fst s)"
  shows "run_step s df = df"
  using assms by (simp add: run_step_def assign_id)

lemma map2_set_num_twice:
  "length xs = length rs \<Longrightarrow> length ys = length rs \<Longrightarrow>
   map2 (\<lambda>r x. set_num c x r) (map2 (\<lambda>r x. set_num c x r) rs xs) ys
     = map2 (\<lambda>r x. set_num c x r) rs ys"
proof (induction rs arbitrary: xs ys)
  case Nil
  then show ?case by simp
next
  case (Cons r rs)
  then obtain x xs' y ys' where "xs = x # xs'" "ys = y # ys'"
    by (metis length_Suc_conv)
  with Cons show ?case by simp
qed

lemma assign_assign: "assign (assign df c v) c w = assign df c w"
proof -
  have "rows (assign (assign df c v) c w) = rows (assign df c w)"
    by (simp add: rows_assign map2_set_num_twice)
  moreover have "columns (assign (assign df c v) c w) = columns (assign df c w)"
    by simp
  ultimately show ?thesis
    by simp
qed

lemma frame_stores_assign:
  "c' = c \<or> frame_stores df c' \<Longrightarrow> frame_stores (assign df c v) c'"
  by (auto simp: frame_stores_def list_all_iff elim!: in_rows_assign)

lemma frame_stores_run_step:
  "c' = fst s \<or> frame_stores df c' \<Longrightarrow> frame_stores (run_step s df) c'"
  by (simp add: run_step_def frame_stores_assign)

lemma frame_stores_run_steps:
  "c' \<in> fst ` set ss \<or> frame_stores df c' \<Longrightarrow> frame_stores (run_steps ss df) c'"
proof (induction ss arbitrary: df)
  case Nil
  then show ?case by simp
next
  case (Cons s ss)
  then show ?case
    using frame_stores_run_step [of c' s df] by auto
qed

lemma frame_stores_assign_txt:
  "c' \<noteq> c \<Longrightarrow> frame_stores df c' \<Longrightarrow> frame_stores (assign_txt df c s) c'"
  by (auto simp: frame_stores_def list_all_iff)

lemma frame_stores_rows_subset:
  "frame_stores df c \<Longrightarrow> columns df' = columns df \<Longrightarrow> set (rows df') \<subseteq> set (rows df) \<Longrightarrow>
   frame_stores df' c"
  by (auto simp: frame_stores_def list_all_iff)

lemma frame_stores_basic_cleaning:
  "c = ''time'' \<or> frame_stores df c \<Longrightarrow> frame_stores (basic_cleaning df) c"
proof -
  let ?d = "run_step (''time'', \<lambda>d. Series (map to_datetime (get_col d ''time''))) df"
  assume "c = ''time'' \<or> frame_stores df c"
  then have "frame_stores ?d c"
    by (intro frame_stores_run_step) auto
  then show ?thesis
    by (rule frame_stores_rows_subset) (auto simp: basic_cleaning_def set_dedup)
qed

section \<open>Gap filling is idempotent\<close>

lemma bfill_all_na: "\<forall>x \<in> set ys. isna x \<Longrightarrow> bfill ys = ys"
proof (induction ys)
  case Nil
  then show ?case by simp
next
  case (Cons y ys)
  then show ?case by (cases ys) (auto simp: isna_def)
qed

lemma ffill_all_na: "\<forall>x \<in> set ys. isna x \<Longrightarrow> ffill ys = ys"
  unfolding ffill_def by (induction ys) (simp_all add: isna_def)

lemma interpolate_all_na:
  assumes "\<forall>x \<in> set xs. isna x"
  shows "interpolate_linear xs = xs"
proof (rule nth_equalityI)
  show "length (interpolate_linear xs) = length xs" by simp
next
  fix k assume "k < length (interpolate_linear xs)"
  then have k: "k < length xs" by simp
  have "prev_valid xs k = None"
    using assms k by (intro prev_valid_None) auto
  moreover have "xs ! k = NaN"
    using assms k by (auto simp: isna_def)
  ultimately show "interpolate_linear xs ! k = xs ! k"
    using k by (simp add: interpolate_linear_nth interp_at_def)
qed

lemma fill_gaps_all_na: "\<forall>x \<in> set xs. isna x \<Longrightarrow> fill_gaps xs = xs"
  by (simp add: fill_gaps_def interpolate_all_na bfill_all_na ffill_all_na)

lemma bfill_nth_na:
  "Suc k < length ys \<Longrightarrow> isna (ys ! k) \<Longrightarrow> bfill ys ! k = bfill ys ! Suc k"
proof (induction ys arbitrary: k)
  case Nil
  then show ?case by simp
next
  case (Cons y ys)
  show ?case
  proof (cases k)
    case 0
    with Cons.prems obtain z zs where "ys = z # zs"
      by (cases ys) auto
    with 0 Cons.prems show ?thesis
      by simp
  next
    case (Suc k')
    with Cons show ?thesis by simp
  qed
qed

lemma bfill_nth_not_na:
  "k \<le> j \<Longrightarrow> j < length ys \<Longrightarrow> \<not> isna (ys ! j) \<Longrightarrow> \<not> isna (bfill ys ! k)"
proof (induction "j - k" arbitrary: k)
  case 0
  then show ?case by (simp add: bfill_nth_valid)
next
  case (Suc n)
  show ?case
  proof (cases "isna (ys ! k)")
    case False
    with Suc.prems show ?thesis by (simp add: bfill_nth_valid)
  next
    case True
    from Suc have "\<not> isna (bfill ys ! Suc k)"
      by (intro Suc.hyps(1)) auto
    moreover have "bfill ys ! k = bfill ys ! Suc k"
      using Suc True by (intro bfill_nth_na) auto
    ultimately show ?thesis by simp
  qed
qed

lemma last_valid:
  assumes "i < length xs" "\<not> isna (xs ! i)"
  obtains l where "l < length xs" "\<not> isna (xs ! l)" "\<forall>m. l < m \<and> m < length xs \<longrightarrow> isna (xs ! m)"
proof -
  let ?P = "\<lambda>n. n < length xs \<and> \<not> isna (xs ! n)"
  have "?P i" using assms by simp
  moreover have "\<forall>y. ?P y \<longrightarrow> y \<le> length xs" by simp
  ultimately obtain l where "?P l" "\<forall>y. ?P y \<longrightarrow> y \<le> l"
    using Nat.ex_has_greatest_nat [of ?P i "length xs"] by blast
  then have "l < length xs" "\<not> isna (xs ! l)" "\<forall>m. l < m \<and> m < length xs \<longrightarrow> isna (xs ! m)"
    by (simp_all, force)
  then show ?thesis
    by (rule that)
qed

lemma fill_gaps_no_na:
  assumes "i < length xs" "\<not> isna (xs ! i)" "k < length xs"
  shows "\<not> isna (fill_gaps xs ! k)"
proof -
  from assms(1,2) obtain l where l: "l < length xs" "\<not> isna (xs ! l)"
    "\<forall>m. l < m \<and> m < length xs \<longrightarrow> isna (xs ! m)"
    by (rule last_valid)
  let ?ys = "interpolate_linear xs"
  have yl: "\<not> isna (?ys ! l)"
    using l by (simp add: interpolate_linear_nth)
  have "\<not> isna (bfill ?ys ! k)"
  proof (cases "k \<le> l")
    case True
    then show ?thesis using l(1) yl by (intro bfill_nth_not_na [of k l]) simp_all
  next
    case False
    then have "l < k" by simp
    have "prev_valid xs k = Some l"
      using \<open>l < k\<close> l(2) l(3) assms(3) by (intro prev_valid_Some) auto
    moreover have "next_valid xs k = None"
      using \<open>l < k\<close> l(3) by (intro next_valid_None) auto
    moreover have "isna (xs ! k)"
      using \<open>l < k\<close> l(3) assms(3) by simp
    ultimately have "?ys ! k = xs ! l"
      using assms(3) by (simp add: interpolate_linear_nth interp_at_def)
    then show ?thesis
      using l(2) assms(3) by (simp add: bfill_nth_valid)
  qed
  then show ?thesis
    using assms(3) by (simp add: fill_gaps_def ffill_nth_valid)
qed

lemma fill_gaps_idem: "fill_gaps (fill_gaps xs) = fill_gaps xs"
proof (cases "\<forall>x \<in> set xs. isna x")
  case True
  then show ?thesis by (simp add: fill_gaps_all_na)
next
  case False
  then obtain i where i: "i < length xs" "\<not> isna (xs ! i)"
    by (auto simp: in_set_conv_nth)
  have "\<forall>x \<in> set (fill_gaps xs). \<not> isna x"
    using fill_gaps_no_na [OF i] by (auto simp: in_set_conv_nth)
  then show ?thesis by (rule fill_gaps_id)
qed

section \<open>Steps that change nothing\<close>

lemma dropna_id:
  "\<forall>r \<in> set (rows df). \<forall>c \<in> set cs. \<not> isna (num_cell r c) \<Longrightarrow> dropna cs df = df"
  by (simp add: dropna_def)

lemma sort_values_id: "sorted (map fkey (get_col df c)) \<Longrightarrow> sort_values c df = df"
  by (simp add: sort_values_def get_col_def o_def sort_key_id_if_sorted)

lemma dedup_id: "distinct xs \<Longrightarrow> set xs \<inter> set seen = {} \<Longrightarrow> dedup seen xs = xs"
  by (induction xs arbitrary: seen) auto

lemma drop_duplicates_id: "distinct (rows df) \<Longrightarrow> drop_duplicates df = df"
  by (simp add: drop_duplicates_def dedup_id)

lemma run_steps_id: "\<forall>s \<in> set ss. run_step s df = df \<Longrightarrow> run_steps ss df = df"
  by (induction ss) simp_all

lemma to_datetime_idem [simp]: "to_datetime (to_datetime x) = to_datetime x"
  by (cases x) (simp_all add: to_datetime_def)

lemma assign_txt_id:
  assumes "c \<in> set (columns df)" and "\<forall>r \<in> set (rows df). stores_txt r c \<and> txt_cell r c = s"
  shows "assign_txt df c s = df"
proof -
  have "map (set_txt c s) (rows df) = rows df"
    using assms(2) set_txt_id by (intro map_idI) auto
  then show ?thesis
    using assms(1) by (simp add: assign_txt_def)
qed

lemma basic_cleaning_id:
  assumes "frame_stores df ''time''"
    and "map to_datetime (get_col df ''time'') = get_col df ''time''"
    and "\<forall>x \<in> set (get_col df ''time''). \<not> isna x"
    and "sorted (map fkey (get_col df ''time''))"
    and "distinct (rows df)"
  shows "basic_cleaning df = df"
proof -
  have "run_step (''time'', \<lambda>d. Series (map to_datetime (get_col d ''time''))) df = df"
    using assms(1,2) by (intro run_step_id) simp_all
  moreover have "dropna [''time''] df = df"
    using assms(3) by (intro dropna_id) (simp add: get_col_def)
  ultimately show ?thesis
    using assms(4,5) by (simp add: basic_cleaning_def sort_values_id drop_duplicates_id)
qed

lemma interpolate_numeric_id:
  assumes "\<forall>c \<in> set numeric_cols. frame_stores df c \<and> fill_gaps (get_col df c) = get_col df c"
  shows "interpolate_numeric df = df"
  unfolding interpolate_numeric_def
proof (rule run_steps_id, clarsimp)
  fix c assume c: "c \<in> set numeric_cols"
  with assms have "frame_stores df c" "fill_gaps (get_col df c) = get_col df c"
    by simp_all
  then show "run_step (interpolation_step c) df = df"
    by (intro run_step_id) (simp_all add: interpolation_step_def frame_stores_def)
qed

section \<open>The enriched frame\<close>

lemma set_numeric_cols_velocity_placeholder:
  "set essential_cols \<subseteq> set (columns df) \<Longrightarrow>
   set numeric_cols \<subseteq> set (columns (dropna essential_cols (velocity_placeholder df)))"
  by (auto simp: essential_cols_def numeric_cols_def)

lemma enriched_stores:
  assumes "c = ''time'' \<or> c \<in> set numeric_cols \<or> c \<in> fst ` set feature_steps"
  shows "frame_stores (feature_engineering (interpolate_numeric (basic_cleaning u))) c"
proof -
  have "c \<in> fst ` set feature_steps \<or> frame_stores (interpolate_numeric (basic_cleaning u)) c"
  proof (cases "c \<in> fst ` set feature_steps")
    case True
    then show ?thesis by simp
  next
    case False
    with assms have "c \<in> fst ` set (map interpolation_step numeric_cols)
        \<or> frame_stores (basic_cleaning u) c"
      using frame_stores_basic_cleaning [of c u]
      by (auto simp: interpolation_step_def image_image)
    then have "frame_stores (interpolate_numeric (basic_cleaning u)) c"
      unfolding interpolate_numeric_def by (rule frame_stores_run_steps)
    then show ?thesis by simp
  qed
  then show ?thesis
    unfolding feature_engineering_def by (rule frame_stores_run_steps)
qed

lemma enriched_time:
  "get_col (feature_engineering (interpolate_numeric (basic_cleaning u))) ''time''
     = get_col (basic_cleaning u) ''time''"
  by (simp add: get_col_feature_engineering_other get_col_interpolate_numeric_other
      feature_steps_def numeric_cols_def)

lemma enriched_numeric:
  assumes "c \<in> set numeric_cols" and "c \<in> set (columns (basic_cleaning u))"
  shows "get_col (feature_engineering (interpolate_numeric (basic_cleaning u))) c
     = fill_gaps (get_col (basic_cleaning u) c)"
proof -
  have "c \<notin> fst ` set feature_steps"
    using assms(1) by (auto simp: numeric_cols_def feature_steps_def)
  then show ?thesis
    using assms by (simp add: get_col_feature_engineering_other interpolate_numeric_col)
qed

lemma basic_cleaning_time_fixed:
  "map to_datetime (get_col (basic_cleaning u) ''time'') = get_col (basic_cleaning u) ''time''"
proof (rule map_idI)
  fix x assume "x \<in> set (get_col (basic_cleaning u) ''time'')"
  then obtain r where "r \<in> set (rows (basic_cleaning u))" "x = num_cell r ''time''"
    by (auto simp: get_col_def)
  then show "to_datetime x = x"
    by (auto elim!: in_rows_basic_cleaning)
qed

lemma enriched_essential_present:
  assumes "set essential_cols \<subseteq> set (columns df)"
    and "u = dropna essential_cols (velocity_placeholder df)"
    and "c \<in> set essential_cols"
  shows "\<forall>x \<in> set (get_col (feature_engineering (interpolate_numeric (basic_cleaning u))) c).
           \<not> isna x"
proof (cases "c = ''time''")
  case True
  then show ?thesis
    using basic_cleaning_times [of u] by (auto simp: enriched_time isna_def)
next
  case False
  have "\<forall>r \<in> set (rows u). \<not> isna (num_cell r c)"
    using assms(2,3) by auto
  then have clean: "\<forall>x \<in> set (get_col (basic_cleaning u) c). \<not> isna x"
    using False by (rule basic_cleaning_keeps_present)
  have "c \<in> set numeric_cols" "c \<in> set (columns (basic_cleaning u))"
    using assms False by (auto simp: essential_cols_def numeric_cols_def)
  then show ?thesis
    using clean by (simp add: enriched_numeric fill_gaps_id)
qed

lemma get_col_fe_kept:
  "get_col (feature_engineering df) ''time'' = get_col df ''time''"
  "get_col (feature_engineering df) ''latitude'' = get_col df ''latitude''"
  "get_col (feature_engineering df) ''longitude'' = get_col df ''longitude''"
  "get_col (feature_engineering df) ''baro_altitude'' = get_col df ''baro_altitude''"
  "get_col (feature_engineering df) ''velocity'' = get_col df ''velocity''"
  "get_col (feature_engineering df) ''heading'' = get_col df ''heading''"
  by (simp_all add: feature_cols)

lemma heading_in_fe:
  "''heading'' \<in> set (columns (feature_engineering df)) \<longleftrightarrow> ''heading'' \<in> set (columns df)"
  by (simp add: set_columns_feature_engineering feature_steps_def)

text \<open>Running the feature steps on a frame that already has their columns.\<close>

lemma feature_engineering_id:
  assumes cols: "\<And>c. c \<noteq> ''icao24'' \<Longrightarrow> get_col x c = get_col (feature_engineering d) c"
    and heading: "''heading'' \<in> set (columns x) \<longleftrightarrow> ''heading'' \<in> set (columns d)"
    and stores: "\<forall>c \<in> fst ` set feature_steps. frame_stores x c"
  shows "feature_engineering x = x"
proof -
  have "length (get_col x ''time'') = length (get_col (feature_engineering d) ''time'')"
    by (simp only: cols [of "''time''"] list.inject char.inject simp_thms)
  then have n: "length (rows x) = length (rows d)"
    by simp
  have st: "frame_stores x c" if "c \<in> fst ` set feature_steps" for c
    using stores that by blast
  let ?s1 = "(''delta_time'', \<lambda>df. Series (fillna (Fin 1) (total_seconds (diff (get_col df ''time'')))))"
  let ?s2 = "(''delta_time'', \<lambda>df. Series (replace [Fin 0] (Fin 1) (get_col df ''delta_time'')))"
  have "run_step ?s2 (run_step ?s1 x) =
      assign x ''delta_time'' (Series (replace [Fin 0] (Fin 1)
        (fillna (Fin 1) (total_seconds (diff (get_col x ''time''))))))"
    by (simp add: run_step_def assign_assign get_col_assign total_seconds_def)
  also have "\<dots> = x"
  proof (rule assign_id)
    show "frame_stores x ''delta_time''"
      by (rule st) (simp add: feature_steps_def)
    show "broadcast (length (rows x)) (Series (replace [Fin 0] (Fin 1)
        (fillna (Fin 1) (total_seconds (diff (get_col x ''time'')))))) = get_col x ''delta_time''"
      by (simp add: cols n fe_delta_time get_col_fe_kept total_seconds_def)
  qed
  finally have first: "run_step ?s2 (run_step ?s1 x) = x" .
  have rest: "\<forall>s \<in> set (drop 2 feature_steps). run_step s x = x"
  proof
    fix s assume s: "s \<in> set (drop 2 feature_steps)"
    then have "fst s \<in> fst ` set feature_steps"
      by (meson imageI in_set_dropD)
    then have fs: "frame_stores x (fst s)"
      by (rule st)
    have "broadcast (length (rows x)) (snd s x) = get_col x (fst s)"
      using s unfolding feature_steps_def
      by (auto simp: cols n heading fe_delta_lat fe_delta_lon fe_delta_altitude fe_delta_velocity
          fe_vx fe_vy fe_v_vertical fe_ax fe_ay fe_a_vertical fe_delta_heading get_col_fe_kept)
    with fs show "run_step s x = x"
      by (rule run_step_id)
  qed
  have "feature_steps = ?s1 # ?s2 # drop 2 feature_steps"
    by (simp add: feature_steps_def)
  then have "feature_engineering x = run_steps (drop 2 feature_steps) (run_step ?s2 (run_step ?s1 x))"
    unfolding feature_engineering_def by (metis run_steps_Cons)
  also have "\<dots> = x"
    unfolding first using rest by (rule run_steps_id)
  finally show ?thesis .
qed

section \<open>Cleaning a cleaned frame again\<close>




end
